(* ===== verification/Prelude.thy ===== *)
theory Prelude
  imports Main "HOL-Library.Word" "HOL-Library.Sublist"
begin

text \<open>
  Shared vocabulary of the development: the widths of the program's integers, the C++
  exceptions as values, the byte-string operations of \<^verbatim>\<open>std::string\<close> and
  \<^verbatim>\<open>std::string_view\<close> that the sources use (find, substr, rfind of a prefix,
  ends_with), the character classes of \<^verbatim>\<open>cctype\<close> in the "C" locale, the decimal
  printing of \<^verbatim>\<open>std::to_string\<close> and the number parsing of \<^verbatim>\<open>std::stoull\<close>.
  A \<open>char\<close> of HOL is a byte, so \<open>string\<close> is a byte string, as \<^verbatim>\<open>std::string\<close> is.
\<close>

unbundle bit_operations_syntax

section \<open>Integers and exceptions\<close>

type_synonym u8 = "8 word"
type_synonym u32 = "32 word"
type_synonym u64 = "64 word"

text \<open>
  What a C++ call may throw: an object derived from \<^verbatim>\<open>std::exception\<close>, of which the
  sources read only \<^verbatim>\<open>what()\<close>, or something else (the \<^verbatim>\<open>catch (...)\<close> branches).
\<close>

datatype exn = StdException string | OtherException

section \<open>Collections of the development\<close>

lemma unat_u64_less [simp]: "unat (w :: u64) < 18446744073709551616"
  using unsigned_less [of w, where ?'a = nat] by simp

named_theorems string_simps \<open>rewriting of the string searches\<close>
named_theorems parse_simps \<open>evaluation of the parsers on known prefixes\<close>
named_theorems inv_intros \<open>preservation of the components' invariants\<close>

section \<open>Lists and options\<close>

fun first_some :: "('a \<Rightarrow> 'b option) \<Rightarrow> 'a list \<Rightarrow> 'b option" where
  "first_some f [] = None"
| "first_some f (x # xs) = (case f x of None \<Rightarrow> first_some f xs | Some y \<Rightarrow> Some y)"

lemma first_some_None [simp]: "(\<And>x. x \<in> set xs \<Longrightarrow> f x = None) \<Longrightarrow> first_some f xs = None"
  by (induction xs) auto

lemma first_some_None_iff: "first_some f xs = None \<longleftrightarrow> (\<forall>x \<in> set xs. f x = None)"
  by (induction xs) (auto split: option.splits)

lemma first_some_SomeD: "first_some f xs = Some y \<Longrightarrow> \<exists>x \<in> set xs. f x = Some y"
  by (induction xs) (auto split: option.splits)

lemma rev_upt_Cons: "lo \<le> hi \<Longrightarrow> rev [lo ..< Suc hi] = hi # rev [lo ..< hi]"
  by simp

lemma takeWhile_length_le: "length (takeWhile P xs) \<le> length xs"
  by (induction xs) auto

lemma drop_takeWhile_dropWhile: "drop (length (takeWhile P xs)) xs = dropWhile P xs"
  by (simp add: dropWhile_eq_drop)

lemma take_takeWhile_self: "take (length (takeWhile P xs)) xs = takeWhile P xs"
  by (induction xs) auto

lemma takeWhile_length_eq_iff: "length (takeWhile P xs) = length xs \<longleftrightarrow> (\<forall>x \<in> set xs. P x)"
  by (induction xs) auto

lemma takeWhile_length_less_iff: "length (takeWhile P xs) < length xs \<longleftrightarrow> (\<exists>x \<in> set xs. \<not> P x)"
  by (induction xs) auto

lemma dropWhile_append_first:
  "\<lbrakk> \<forall>x \<in> set xs. P x; ys \<noteq> [] \<Longrightarrow> \<not> P (hd ys) \<rbrakk> \<Longrightarrow> dropWhile P (xs @ ys) = ys"
  by (induction xs) (cases ys; auto)+

lemma takeWhile_append_first:
  "\<lbrakk> \<forall>x \<in> set xs. P x; ys \<noteq> [] \<Longrightarrow> \<not> P (hd ys) \<rbrakk> \<Longrightarrow> takeWhile P (xs @ ys) = xs"
  by (induction xs) (cases ys; auto)+

section \<open>Byte-string operations\<close>

text \<open>
  \<^verbatim>\<open>s.find(pat)\<close>: the index of the first occurrence, \<open>None\<close> for
  \<^verbatim>\<open>npos\<close>. The searches with a start position follow; a start beyond the end finds nothing.
\<close>

fun str_find :: "string \<Rightarrow> string \<Rightarrow> nat option" where
  "str_find pat [] = (if pat = [] then Some 0 else None)"
| "str_find pat (c # cs) =
     (if prefix pat (c # cs) then Some 0 else map_option Suc (str_find pat cs))"

definition str_find_from :: "string \<Rightarrow> string \<Rightarrow> nat \<Rightarrow> nat option" where
  "str_find_from pat s i =
     (if i \<le> length s then map_option (\<lambda>k. i + k) (str_find pat (drop i s)) else None)"

definition starts_with :: "string \<Rightarrow> string \<Rightarrow> bool" where
  "starts_with s pre = prefix pre s"

definition ends_with :: "string \<Rightarrow> string \<Rightarrow> bool" where
  "ends_with s suf = suffix suf s"

text \<open>\<^verbatim>\<open>s.substr(pos, n)\<close> for \<^verbatim>\<open>pos <= s.size()\<close>; every call in the sources satisfies it.\<close>

definition substr :: "string \<Rightarrow> nat \<Rightarrow> nat \<Rightarrow> string" where
  "substr s pos n = take n (drop pos s)"

text \<open>\<^verbatim>\<open>s.rfind(c)\<close> of one character: the index of its last occurrence.\<close>

fun str_rfind :: "char \<Rightarrow> string \<Rightarrow> nat option" where
  "str_rfind c [] = None"
| "str_rfind c (x # xs) =
     (case str_rfind c xs of Some i \<Rightarrow> Some (Suc i) | None \<Rightarrow> if x = c then Some 0 else None)"

lemma str_find_Some:
  "str_find pat s = Some i \<Longrightarrow>
     i + length pat \<le> length s \<and> take (length pat) (drop i s) = pat \<and> (\<forall>j < i. \<not> prefix pat (drop j s))"
proof (induction s arbitrary: i)
  case Nil
  then show ?case by (auto split: if_splits)
next
  case (Cons c cs)
  show ?case
  proof (cases "prefix pat (c # cs)")
    case True
    with Cons.prems have "i = 0" by simp
    with True show ?thesis by (auto simp: prefix_def dest: arg_cong [of _ _ length])
  next
    case False
    with Cons.prems obtain k where k: "str_find pat cs = Some k" "i = Suc k" by auto
    from Cons.IH [OF k(1)] k(2) False show ?thesis
      by (auto simp: less_Suc_eq_0_disj)
  qed
qed

lemma str_find_None: "str_find pat s = None \<longleftrightarrow> (\<forall>j \<le> length s. \<not> prefix pat (drop j s))"
proof (induction s)
  case (Cons c cs)
  have "(\<forall>j \<le> length (c # cs). \<not> prefix pat (drop j (c # cs))) \<longleftrightarrow>
        \<not> prefix pat (c # cs) \<and> (\<forall>j \<le> length cs. \<not> prefix pat (drop j cs))"
    by (metis (no_types, lifting) Suc_le_mono drop0 drop_Suc_Cons le0 length_Cons not0_implies_Suc)
  with Cons.IH show ?case by simp
qed simp

lemma str_find_split:
  assumes "str_find pat s = Some i"
  shows "s = take i s @ pat @ drop (i + length pat) s"
proof -
  from str_find_Some [OF assms] have "take (length pat) (drop i s) = pat" by simp
  then have "drop i s = pat @ drop (i + length pat) s"
    by (metis add.commute append_take_drop_id drop_drop)
  then show ?thesis by (metis append_take_drop_id)
qed

text \<open>A search skips a prefix no suffix of which, extended, starts an occurrence.\<close>

lemma str_find_skip:
  assumes "\<And>j. j < length pre \<Longrightarrow> \<not> prefix pat (drop j pre @ s)"
  shows "str_find pat (pre @ s) = map_option (\<lambda>k. length pre + k) (str_find pat s)"
  using assms
proof (induction pre)
  case Nil
  then show ?case by (simp add: option.map_ident)
next
  case (Cons c pre)
  have "\<not> prefix pat ((c # pre) @ s)" using Cons.prems [of 0] by simp
  moreover have "str_find pat (pre @ s) = map_option (\<lambda>k. length pre + k) (str_find pat s)"
    using Cons.prems [of "Suc j" for j] by (intro Cons.IH) simp
  ultimately show ?case by (simp add: option.map_comp comp_def)
qed

text \<open>The first character of the pattern does not occur in the prefix.\<close>

lemma str_find_skip_hd [string_simps]:
  assumes "pat \<noteq> []" and "hd pat \<notin> set pre"
  shows "str_find pat (pre @ s) = map_option (\<lambda>k. length pre + k) (str_find pat s)"
proof (rule str_find_skip)
  fix j assume "j < length pre"
  then obtain x xs where "drop j pre = x # xs" by (metis Cons_nth_drop_Suc)
  moreover then have "x \<in> set pre" by (metis in_set_dropD list.set_intros(1))
  ultimately show "\<not> prefix pat (drop j pre @ s)"
    using assms by (cases pat) auto
qed

lemma str_find_here [string_simps]: "pat \<noteq> [] \<Longrightarrow> str_find pat (pat @ s) = Some 0"
  by (cases pat) auto

lemma str_find_none_hd: "pat \<noteq> [] \<Longrightarrow> hd pat \<notin> set s \<Longrightarrow> str_find pat s = None"
  using str_find_skip_hd [of pat s "[]"] by simp

lemma str_find_char:
  "str_find [c] s = (if c \<in> set s then Some (length (takeWhile (\<lambda>x. x \<noteq> c) s)) else None)"
  by (induction s) auto

lemma starts_with_append [string_simps]: "starts_with (pre @ s) pre"
  by (simp add: starts_with_def)

lemma ends_with_append [string_simps]: "ends_with (s @ suf) suf"
  by (simp add: ends_with_def suffix_def)

section \<open>Character classes of the "C" locale\<close>

text \<open>
  Character codes and the values of numerals are \<open>int\<close>, whose arithmetic the kernel evaluates
  on binary numerals.
\<close>

abbreviation code :: "char \<Rightarrow> int" where
  "code c \<equiv> of_char c"

definition is_space :: "char \<Rightarrow> bool" where
  "is_space c = (c = CHR '' '' \<or> (9 \<le> code c \<and> code c \<le> 13))"

definition is_digit :: "char \<Rightarrow> bool" where
  "is_digit c = (48 \<le> code c \<and> code c \<le> 57)"

definition is_xdigit :: "char \<Rightarrow> bool" where
  "is_xdigit c = (is_digit c \<or> (65 \<le> code c \<and> code c \<le> 70) \<or> (97 \<le> code c \<and> code c \<le> 102))"

definition to_lower :: "char \<Rightarrow> char" where
  "to_lower c = (if 65 \<le> code c \<and> code c \<le> 90 then char_of (code c + 32) else c)"

lemma code_nonneg [simp]: "0 \<le> code c"
  by (metis of_char_mod_256 pos_mod_sign zero_less_numeral)

lemma code_less [simp]: "code c < 256"
  by (metis of_char_mod_256 pos_mod_bound zero_less_numeral)

lemma to_lower_idem [simp]: "to_lower (to_lower c) = to_lower c"
  by (auto simp: to_lower_def)

lemma digit_not_space: "is_digit c \<Longrightarrow> \<not> is_space c"
  by (auto simp: is_digit_def is_space_def)

section \<open>Printing and parsing of numbers\<close>

definition digit_char :: "int \<Rightarrow> char" where
  "digit_char d = char_of (48 + d)"

text \<open>\<^verbatim>\<open>std::to_string\<close> and \<^verbatim>\<open>operator<<\<close> of an unsigned integer.\<close>

function dec_digits :: "int \<Rightarrow> string" where
  "dec_digits n = (if n < 10 then [digit_char n] else dec_digits (n div 10) @ [digit_char (n mod 10)])"
  by pat_completeness auto
termination
  by (relation "measure nat") auto

declare dec_digits.simps [simp del]

definition u64_to_string :: "u64 \<Rightarrow> string" where
  "u64_to_string w = dec_digits (uint w)"

definition size_to_string :: "nat \<Rightarrow> string" where
  "size_to_string n = dec_digits (int n)"

datatype stoull_error = InvalidArgument | OutOfRange

definition digit_value :: "char \<Rightarrow> int" where
  "digit_value c =
     (if is_digit c then code c - 48
      else if 97 \<le> code c \<and> code c \<le> 122 then code c - 87
      else if 65 \<le> code c \<and> code c \<le> 90 then code c - 55
      else 36)"

definition base_digit :: "int \<Rightarrow> char \<Rightarrow> bool" where
  "base_digit base c = (digit_value c < base)"

definition digits_value :: "int \<Rightarrow> string \<Rightarrow> int" where
  "digits_value base ds = foldl (\<lambda>n c. n * base + digit_value c) 0 ds"

fun strip_0x :: "string \<Rightarrow> string" where
  "strip_0x (z # x # h # r) =
     (if z = CHR ''0'' \<and> to_lower x = CHR ''x'' \<and> base_digit 16 h then h # r else z # x # h # r)"
| "strip_0x s = s"

text \<open>
  \<^verbatim>\<open>std::stoull(s, nullptr, base)\<close> for bases 10 and 16: white space, a sign, the
  optional \<^verbatim>\<open>0x\<close> of base 16, then the longest run of digits; what follows is ignored. A
  minus sign negates modulo \<open>2 ^ 64\<close>, as \<^verbatim>\<open>strtoull\<close> does.
\<close>

definition stoull :: "string \<Rightarrow> int \<Rightarrow> stoull_error + u64" where
  "stoull s base =
     (let t = dropWhile is_space s;
          neg = (t \<noteq> [] \<and> hd t = CHR ''-'');
          u = (if t \<noteq> [] \<and> (hd t = CHR ''-'' \<or> hd t = CHR ''+'') then tl t else t);
          v = (if base = 16 then strip_0x u else u);
          ds = takeWhile (base_digit base) v;
          n = digits_value base ds
      in if ds = [] then Inl InvalidArgument
         else if 2 ^ 64 \<le> n then Inl OutOfRange
         else Inr (if neg then - of_int n else of_int n))"

lemma code_digit_char [simp]: "0 \<le> d \<Longrightarrow> d < 10 \<Longrightarrow> code (digit_char d) = 48 + d"
  by (simp add: digit_char_def)

lemma is_digit_digit_char [simp]: "0 \<le> d \<Longrightarrow> d < 10 \<Longrightarrow> is_digit (digit_char d)"
  by (simp add: is_digit_def)

lemma digit_value_digit_char [simp]: "0 \<le> d \<Longrightarrow> d < 10 \<Longrightarrow> digit_value (digit_char d) = d"
  by (simp add: digit_value_def is_digit_def)

lemma base_digit_10_iff: "base_digit 10 c \<longleftrightarrow> is_digit c"
  by (auto simp: base_digit_def digit_value_def is_digit_def)

lemma dec_digits_nonempty [simp]: "dec_digits n \<noteq> []"
  by (subst dec_digits.simps) simp

lemma dec_digits_all_digits: "c \<in> set (dec_digits n) \<Longrightarrow> 0 \<le> n \<Longrightarrow> is_digit c"
proof (induction n rule: dec_digits.induct)
  case (1 n)
  then show ?case by (subst (asm) (2) dec_digits.simps) (auto split: if_splits)
qed

lemma digits_value_snoc: "digits_value b (ds @ [c]) = digits_value b ds * b + digit_value c"
  by (simp add: digits_value_def)

lemma digits_value_dec_digits [simp]: "0 \<le> n \<Longrightarrow> digits_value 10 (dec_digits n) = n"
proof (induction n rule: dec_digits.induct)
  case (1 n)
  show ?case
  proof (cases "n < 10")
    case True
    with 1 show ?thesis by (subst dec_digits.simps) (simp add: digits_value_def)
  next
    case False
    with 1 show ?thesis by (subst dec_digits.simps) (simp add: digits_value_snoc)
  qed
qed

lemma dec_digits_inject: "0 \<le> m \<Longrightarrow> 0 \<le> n \<Longrightarrow> dec_digits m = dec_digits n \<longleftrightarrow> m = n"
  by (metis digits_value_dec_digits)

lemma u64_to_string_inject [simp]: "u64_to_string v = u64_to_string w \<longleftrightarrow> v = w"
  by (simp add: u64_to_string_def dec_digits_inject word_uint_eq_iff)

lemma u64_to_string_digits: "c \<in> set (u64_to_string w) \<Longrightarrow> is_digit c"
  by (simp add: u64_to_string_def dec_digits_all_digits)

lemma u64_to_string_nonempty [simp]: "u64_to_string w \<noteq> []"
  by (simp add: u64_to_string_def)

lemma takeWhile_all: "(\<And>x. x \<in> set xs \<Longrightarrow> P x) \<Longrightarrow> takeWhile P xs = xs"
  by (simp add: takeWhile_eq_all_conv)

text \<open>\<^verbatim>\<open>stoull\<close> on a run of decimal digits, the only strings the parsers of the sources give it.\<close>

lemma stoull_digits:
  assumes "ds \<noteq> []" and "\<And>c. c \<in> set ds \<Longrightarrow> is_digit c"
  shows "stoull ds 10 =
     (if 2 ^ 64 \<le> digits_value 10 ds then Inl OutOfRange else Inr (of_int (digits_value 10 ds)))"
proof -
  obtain c cs where ds: "ds = c # cs" using assms(1) by (cases ds) auto
  with assms(2) have c: "is_digit c" by simp
  then have "\<not> is_space c" by (rule digit_not_space)
  moreover from c have "c \<noteq> CHR ''-''" "c \<noteq> CHR ''+''" by (auto simp: is_digit_def)
  moreover have "takeWhile (base_digit 10) ds = ds"
    using assms(2) by (intro takeWhile_all) (simp add: base_digit_10_iff)
  ultimately show ?thesis using ds by (simp add: stoull_def Let_def)
qed

lemma stoull_u64_to_string [simp]: "stoull (u64_to_string w) 10 = Inr w"
proof -
  have "uint w < 2 ^ 64" using unsigned_less [of w, where ?'a = int] by simp
  moreover have "digits_value 10 (u64_to_string w) = uint w" by (simp add: u64_to_string_def)
  ultimately show ?thesis
    by (subst stoull_digits) (auto dest: u64_to_string_digits)
qed

text \<open>Numbers set off by a bar can be read back from the end of a text.\<close>

lemma split_last_bar:
  assumes "a @ CHR ''|'' # u = b @ CHR ''|'' # v" "CHR ''|'' \<notin> set u" "CHR ''|'' \<notin> set v"
  shows "a = b \<and> u = v"
  using assms by (auto simp: append_eq_append_conv2 append_eq_Cons_conv Cons_eq_append_conv)

lemma no_bar_u64: "CHR ''|'' \<notin> set (u64_to_string n)"
  using u64_to_string_digits [of "CHR ''|''" n] by (auto simp: is_digit_def)

end
