(* ===== verification/Domain.thy ===== *)
theory Domain
  imports Prelude
begin

text \<open>
  The data of \<^verbatim>\<open>include/domain\<close>: telemetry packets, blockchain receipts, stored records, the
  result of an ingest and the metrics snapshot. Field names are the sources', except where two
  structs share one (\<^verbatim>\<open>recordId\<close>, \<^verbatim>\<open>receipt\<close>, the counters), where the later
  struct's field carries a prefix.
\<close>

record telemetry_packet =
  deviceId :: string
  timestamp :: u64
  telemetryJson :: string
  hashHex :: string
  signature :: string
  pubKeyId :: string
  transport :: string
  batchCode :: string

record blockchain_receipt =
  txHash :: string
  blockHeight :: u64
  submittedAtIso8601 :: string

record telemetry_record =
  recordId :: u64
  packet :: telemetry_packet
  receipt :: "blockchain_receipt option"

record ingest_result =
  accepted :: bool
  message :: string
  resultRecordId :: u64
  resultReceipt :: "blockchain_receipt option"
  processingMs :: u64

record metrics_snapshot =
  snapTotalRequests :: u64
  snapAcceptedRequests :: u64
  snapRejectedRequests :: u64
  snapAverageProcessingMs :: u64
  snapRepositorySize :: u64

text \<open>The values of the default member initialisers.\<close>

definition default_packet :: telemetry_packet where
  "default_packet = \<lparr> deviceId = [], timestamp = 0, telemetryJson = [], hashHex = [],
     signature = [], pubKeyId = [], transport = [], batchCode = [] \<rparr>"

definition default_ingest_result :: ingest_result where
  "default_ingest_result = \<lparr> accepted = False, message = [], resultRecordId = 0,
     resultReceipt = None, processingMs = 0 \<rparr>"

end
