(* ===== verification/Repository.thy ===== *)
theory Repository
  imports Domain "HOL-Library.Multiset"
begin

text \<open>
  The interface \<^verbatim>\<open>TelemetryRepository\<close> (\<^verbatim>\<open>include/storage/telemetry_repository.h\<close>): the
  seven virtual methods as a record of functions over the state \<open>'r\<close> of an implementation. A
  method that may throw returns \<open>Inl\<close> of the exception; the \<^verbatim>\<open>const\<close> methods return no
  new state. The locale \<open>telemetry_store\<close> is the contract both implementations are proved to keep:
  what the list of stored records is after each call, and what the queries return in terms of it.
\<close>

record 'r telemetry_repository =
  Save :: "telemetry_packet \<Rightarrow> 'r \<Rightarrow> (exn + u64) \<times> 'r"
  AttachReceipt :: "u64 \<Rightarrow> blockchain_receipt \<Rightarrow> 'r \<Rightarrow> (exn + bool) \<times> 'r"
  Delete :: "u64 \<Rightarrow> 'r \<Rightarrow> (exn + bool) \<times> 'r"
  LatestByDevice :: "string \<Rightarrow> 'r \<Rightarrow> exn + telemetry_record option"
  FindByTransaction :: "string \<Rightarrow> 'r \<Rightarrow> exn + telemetry_record option"
  FindByBatch :: "string \<Rightarrow> 'r \<Rightarrow> exn + telemetry_record list"
  Size :: "'r \<Rightarrow> exn + u64"

section \<open>The abstract store: a list of records in order of arrival\<close>

definition ids :: "telemetry_record list \<Rightarrow> u64 list" where
  "ids rs = map recordId rs"

definition new_record :: "u64 \<Rightarrow> telemetry_packet \<Rightarrow> telemetry_record" where
  "new_record i p = \<lparr> recordId = i, packet = p, receipt = None \<rparr>"

definition store_attach :: "u64 \<Rightarrow> blockchain_receipt \<Rightarrow> telemetry_record list \<Rightarrow> telemetry_record list" where
  "store_attach i rc rs = map (\<lambda>r. if recordId r = i then r\<lparr>receipt := Some rc\<rparr> else r) rs"

definition store_delete :: "u64 \<Rightarrow> telemetry_record list \<Rightarrow> telemetry_record list" where
  "store_delete i rs = filter (\<lambda>r. recordId r \<noteq> i) rs"

definition of_device :: "string \<Rightarrow> telemetry_record list \<Rightarrow> telemetry_record list" where
  "of_device d rs = filter (\<lambda>r. deviceId (packet r) = d) rs"

definition of_batch :: "string \<Rightarrow> telemetry_record list \<Rightarrow> telemetry_record list" where
  "of_batch b rs = filter (\<lambda>r. batchCode (packet r) = b) rs"

definition has_tx :: "string \<Rightarrow> telemetry_record \<Rightarrow> bool" where
  "has_tx t r = (case receipt r of None \<Rightarrow> False | Some rc \<Rightarrow> txHash rc = t)"

lemma ids_simps [simp]:
  "ids [] = []" "ids (r # rs) = recordId r # ids rs" "ids (rs @ qs) = ids rs @ ids qs"
  "length (ids rs) = length rs"
  by (simp_all add: ids_def)

lemma recordId_new_record [simp]: "recordId (new_record i p) = i" "packet (new_record i p) = p"
  "receipt (new_record i p) = None"
  by (simp_all add: new_record_def)

lemma has_tx_simps [simp]:
  "\<not> has_tx t (new_record i p)" "has_tx t (r\<lparr>receipt := Some rc\<rparr>) \<longleftrightarrow> txHash rc = t"
  by (simp_all add: has_tx_def)

lemma ids_store_attach [simp]: "ids (store_attach i rc rs) = ids rs"
  by (induction rs) (simp_all add: store_attach_def)

lemma store_attach_append:
  "store_attach i rc (rs @ qs) = store_attach i rc rs @ store_attach i rc qs"
  by (simp add: store_attach_def)

lemma store_attach_absent: "i \<notin> set (ids rs) \<Longrightarrow> store_attach i rc rs = rs"
  by (induction rs) (auto simp: store_attach_def)

lemma store_attach_new:
  "store_attach i rc [new_record i p] = [\<lparr> recordId = i, packet = p, receipt = Some rc \<rparr>]"
  by (simp add: store_attach_def new_record_def)

lemma store_delete_absent: "i \<notin> set (ids rs) \<Longrightarrow> store_delete i rs = rs"
  by (induction rs) (auto simp: store_delete_def)

lemma store_delete_append: "store_delete i (rs @ qs) = store_delete i rs @ store_delete i qs"
  by (simp add: store_delete_def)

lemma store_delete_new: "i \<notin> set (ids rs) \<Longrightarrow> store_delete i (rs @ [new_record i p]) = rs"
  by (simp add: store_delete_append store_delete_absent) (simp add: store_delete_def)

lemma set_ids_store_delete [simp]: "set (ids (store_delete i rs)) = set (ids rs) - {i}"
  by (auto simp: ids_def store_delete_def)

section \<open>The contract\<close>

text \<open>
  \<open>stored\<close> and \<open>stored_receipt\<close> say what of a packet and a receipt the medium keeps,
  \<open>lookup_key\<close> what of a query string it compares, \<open>room\<close> when another record fits.
\<close>

locale telemetry_store =
  fixes ops :: "'r telemetry_repository"
    and inv :: "'r \<Rightarrow> bool"
    and room :: "'r \<Rightarrow> bool"
    and contents :: "'r \<Rightarrow> telemetry_record list"
    and stored :: "telemetry_packet \<Rightarrow> telemetry_packet"
    and stored_receipt :: "blockchain_receipt \<Rightarrow> blockchain_receipt"
    and lookup_key :: "string \<Rightarrow> string"
  assumes save_ok: "\<lbrakk> inv s; room s; Save ops p s = (Inr i, s') \<rbrakk> \<Longrightarrow>
        inv s' \<and> i \<notin> set (ids (contents s)) \<and> contents s' = contents s @ [new_record i (stored p)]"
    and save_error: "\<lbrakk> inv s; Save ops p s = (Inl e, s') \<rbrakk> \<Longrightarrow> inv s' \<and> contents s' = contents s"
    and attach_ok: "\<lbrakk> inv s; AttachReceipt ops i rc s = (Inr b, s') \<rbrakk> \<Longrightarrow>
        inv s' \<and> (b \<longleftrightarrow> i \<in> set (ids (contents s))) \<and>
        contents s' = store_attach i (stored_receipt rc) (contents s)"
    and attach_error: "\<lbrakk> inv s; AttachReceipt ops i rc s = (Inl e, s') \<rbrakk> \<Longrightarrow>
        inv s' \<and> contents s' = contents s"
    and delete_ok: "\<lbrakk> inv s; Delete ops i s = (Inr b, s') \<rbrakk> \<Longrightarrow>
        inv s' \<and> (b \<longleftrightarrow> i \<in> set (ids (contents s))) \<and> contents s' = store_delete i (contents s)"
    and delete_error: "\<lbrakk> inv s; Delete ops i s = (Inl e, s') \<rbrakk> \<Longrightarrow>
        inv s' \<and> contents s' = contents s"
    and distinct_ids: "inv s \<Longrightarrow> distinct (ids (contents s))"
    and latest_some: "\<lbrakk> inv s; LatestByDevice ops d s = Inr (Some r) \<rbrakk> \<Longrightarrow>
        r \<in> set (of_device (lookup_key d) (contents s))"
    and latest_none: "\<lbrakk> inv s; LatestByDevice ops d s = Inr None \<rbrakk> \<Longrightarrow>
        of_device (lookup_key d) (contents s) = []"
    and batch_all: "\<lbrakk> inv s; lookup_key c \<noteq> []; FindByBatch ops c s = Inr rs \<rbrakk> \<Longrightarrow>
        mset rs = mset (of_batch (lookup_key c) (contents s))"
    and size_is: "\<lbrakk> inv s; Size ops s = Inr n \<rbrakk> \<Longrightarrow> n = of_nat (length (contents s))"
begin

text \<open>A record just saved can be deleted, which restores the contents.\<close>

lemma save_delete:
  assumes "inv s" "room s" "Save ops p s = (Inr i, s1)" "Delete ops i s1 = (Inr b, s2)"
  shows "b \<and> inv s2 \<and> contents s2 = contents s"
  using save_ok [OF assms(1-3)] delete_ok [of s1 i b s2] assms(4)
  by (auto simp: store_delete_new)

text \<open>Attaching a receipt to a record just saved completes exactly that record.\<close>

lemma save_attach:
  assumes "inv s" "room s" "Save ops p s = (Inr i, s1)" "AttachReceipt ops i rc s1 = (Inr b, s2)"
  shows "b \<and> inv s2 \<and> contents s2 = contents s @
    [\<lparr> recordId = i, packet = stored p, receipt = Some (stored_receipt rc) \<rparr>]"
  using save_ok [OF assms(1-3)] attach_ok [of s1 i rc b s2] assms(4)
  by (auto simp: store_attach_append store_attach_absent store_attach_new)

text \<open>The device that just reported has a latest record.\<close>

lemma latest_exists:
  assumes "inv s" "r \<in> set (contents s)" "deviceId (packet r) = lookup_key d"
    and "LatestByDevice ops d s = Inr x"
  shows "\<exists>q. x = Some q \<and> deviceId (packet q) = lookup_key d"
proof (cases x)
  case None
  with assms latest_none [OF assms(1)] show ?thesis
    by (auto simp: of_device_def filter_empty_conv)
next
  case (Some q)
  with assms latest_some [OF assms(1)] show ?thesis by (fastforce simp: of_device_def)
qed

end

section \<open>Sequences of calls\<close>

text \<open>
  The three calls that change a repository, and their effect on an implementation (results
  dropped) and on the abstract store, a next id beside the list of records.
\<close>

datatype repo_call = SaveCall telemetry_packet | AttachCall u64 blockchain_receipt | DeleteCall u64

fun repo_step :: "'r telemetry_repository \<Rightarrow> repo_call \<Rightarrow> 'r \<Rightarrow> 'r" where
  "repo_step ops (SaveCall p) s = snd (Save ops p s)"
| "repo_step ops (AttachCall i rc) s = snd (AttachReceipt ops i rc s)"
| "repo_step ops (DeleteCall i) s = snd (Delete ops i s)"

fun store_step :: "repo_call \<Rightarrow> u64 \<times> telemetry_record list \<Rightarrow> u64 \<times> telemetry_record list" where
  "store_step (SaveCall p) (n, rs) = (n + 1, rs @ [new_record n p])"
| "store_step (AttachCall i rc) (n, rs) = (n, store_attach i rc rs)"
| "store_step (DeleteCall i) (n, rs) = (n, store_delete i rs)"

definition repo_run :: "'r telemetry_repository \<Rightarrow> repo_call list \<Rightarrow> 'r \<Rightarrow> 'r" where
  "repo_run ops cs s = fold (repo_step ops) cs s"

definition store_run :: "repo_call list \<Rightarrow> u64 \<times> telemetry_record list \<Rightarrow> u64 \<times> telemetry_record list" where
  "store_run cs s = fold store_step cs s"

end
