(* ===== verification/In_Memory_Repository.thy ===== *)
theory In_Memory_Repository
  imports Repository
begin

text \<open>
  \<^verbatim>\<open>src/storage/in_memory_telemetry_repository.cpp\<close>: the records in a vector and four hash
  maps over it. The mutex of every method makes a method one atomic step; the hash maps are
  partial functions. Vector indexing is guarded by the index invariant, proved below.
\<close>

record in_memory =
  nextRecordId :: u64
  records :: "telemetry_record list"
  positionById :: "u64 \<rightharpoonup> nat"
  recordIdsByDevice :: "string \<rightharpoonup> u64 list"
  recordIdsByBatch :: "string \<rightharpoonup> u64 list"
  recordIdByTxHash :: "string \<rightharpoonup> u64"

definition mem_empty :: in_memory where
  "mem_empty = \<lparr> nextRecordId = 1, records = [], positionById = Map.empty,
     recordIdsByDevice = Map.empty, recordIdsByBatch = Map.empty, recordIdByTxHash = Map.empty \<rparr>"

text \<open>\<^verbatim>\<open>m[k].push_back(i)\<close>: the subscript creates an empty vector for a new key.\<close>

definition push_id :: "string \<Rightarrow> u64 \<Rightarrow> (string \<rightharpoonup> u64 list) \<Rightarrow> (string \<rightharpoonup> u64 list)" where
  "push_id k i m = m(k \<mapsto> (case m k of None \<Rightarrow> [] | Some is \<Rightarrow> is) @ [i])"

definition mem_Save :: "telemetry_packet \<Rightarrow> in_memory \<Rightarrow> u64 \<times> in_memory" where
  "mem_Save p s =
     (let recordId = nextRecordId s;
          rs = records s @ [new_record recordId p]
      in (recordId, s\<lparr> nextRecordId := nextRecordId s + 1,
            records := rs,
            positionById := (positionById s)(recordId \<mapsto> length rs - 1),
            recordIdsByDevice := push_id (deviceId p) recordId (recordIdsByDevice s),
            recordIdsByBatch :=
              (if batchCode p \<noteq> [] then push_id (batchCode p) recordId (recordIdsByBatch s)
               else recordIdsByBatch s) \<rparr>))"

definition mem_AttachReceipt :: "u64 \<Rightarrow> blockchain_receipt \<Rightarrow> in_memory \<Rightarrow> bool \<times> in_memory" where
  "mem_AttachReceipt i rc s =
     (case positionById s i of
        None \<Rightarrow> (False, s)
      | Some position \<Rightarrow>
          (True, s\<lparr> records := (records s)[position := (records s ! position)\<lparr>receipt := Some rc\<rparr>],
                    recordIdByTxHash := (recordIdByTxHash s)(txHash rc \<mapsto> i) \<rparr>))"

text \<open>\<^verbatim>\<open>eraseRecordId\<close> on the vector of one key, the key erased when the vector becomes empty.\<close>

definition erase_id :: "string \<Rightarrow> u64 \<Rightarrow> (string \<rightharpoonup> u64 list) \<Rightarrow> (string \<rightharpoonup> u64 list)" where
  "erase_id k i m =
     (case m k of
        None \<Rightarrow> m
      | Some is \<Rightarrow> if removeAll i is = [] then m(k := None) else m(k \<mapsto> removeAll i is))"

definition reindex :: "nat \<Rightarrow> telemetry_record list \<Rightarrow> (u64 \<rightharpoonup> nat) \<Rightarrow> (u64 \<rightharpoonup> nat)" where
  "reindex position rs m = fold (\<lambda>k m. m(recordId (rs ! k) \<mapsto> k)) [position ..< length rs] m"

definition mem_Delete :: "u64 \<Rightarrow> in_memory \<Rightarrow> bool \<times> in_memory" where
  "mem_Delete i s =
     (case positionById s i of
        None \<Rightarrow> (False, s)
      | Some position \<Rightarrow>
          (let record = records s ! position;
               rs = take position (records s) @ drop (Suc position) (records s)
           in (True, s\<lparr>
                records := rs,
                positionById := reindex position rs ((positionById s)(i := None)),
                recordIdsByDevice := erase_id (deviceId (packet record)) i (recordIdsByDevice s),
                recordIdsByBatch :=
                  (if batchCode (packet record) \<noteq> []
                   then erase_id (batchCode (packet record)) i (recordIdsByBatch s)
                   else recordIdsByBatch s),
                recordIdByTxHash :=
                  (case receipt record of
                     None \<Rightarrow> recordIdByTxHash s
                   | Some rc \<Rightarrow> (recordIdByTxHash s)(txHash rc := None)) \<rparr>)))"

definition FindByIdLocked :: "u64 \<Rightarrow> in_memory \<Rightarrow> telemetry_record option" where
  "FindByIdLocked i s =
     (case positionById s i of None \<Rightarrow> None | Some position \<Rightarrow> Some (records s ! position))"

definition mem_LatestByDevice :: "string \<Rightarrow> in_memory \<Rightarrow> telemetry_record option" where
  "mem_LatestByDevice d s =
     (case recordIdsByDevice s d of
        None \<Rightarrow> None
      | Some is \<Rightarrow> if is = [] then None else FindByIdLocked (last is) s)"

definition mem_FindByTransaction :: "string \<Rightarrow> in_memory \<Rightarrow> telemetry_record option" where
  "mem_FindByTransaction t s =
     (case recordIdByTxHash s t of None \<Rightarrow> None | Some i \<Rightarrow> FindByIdLocked i s)"

definition mem_FindByBatch :: "string \<Rightarrow> in_memory \<Rightarrow> telemetry_record list" where
  "mem_FindByBatch b s =
     (case recordIdsByBatch s b of
        None \<Rightarrow> []
      | Some is \<Rightarrow> concat (map (\<lambda>i. case FindByIdLocked i s of None \<Rightarrow> [] | Some r \<Rightarrow> [r]) is))"

definition mem_Size :: "in_memory \<Rightarrow> u64" where
  "mem_Size s = of_nat (length (records s))"

text \<open>The class as an implementation of the interface: no method throws.\<close>

definition in_memory_repository :: "in_memory telemetry_repository" where
  "in_memory_repository =
     \<lparr> Save = (\<lambda>p s. apfst Inr (mem_Save p s)),
       AttachReceipt = (\<lambda>i rc s. apfst Inr (mem_AttachReceipt i rc s)),
       Delete = (\<lambda>i s. apfst Inr (mem_Delete i s)),
       LatestByDevice = (\<lambda>d s. Inr (mem_LatestByDevice d s)),
       FindByTransaction = (\<lambda>t s. Inr (mem_FindByTransaction t s)),
       FindByBatch = (\<lambda>b s. Inr (mem_FindByBatch b s)),
       Size = (\<lambda>s. Inr (mem_Size s)) \<rparr>"

section \<open>The index invariant\<close>

text \<open>
  Every index agrees with the vector: a position for exactly the stored ids, the ids of each
  device and batch in order of arrival, no key with an empty vector, and ids below the next one.
\<close>

definition id_index :: "telemetry_record list \<Rightarrow> u64 list option" where
  "id_index rs = (if rs = [] then None else Some (ids rs))"

definition position_ok :: "telemetry_record list \<Rightarrow> (u64 \<rightharpoonup> nat) \<Rightarrow> bool" where
  "position_ok rs m \<longleftrightarrow> (\<forall>i k. m i = Some k \<longleftrightarrow> k < length rs \<and> recordId (rs ! k) = i)"

definition mem_inv :: "in_memory \<Rightarrow> bool" where
  "mem_inv s \<longleftrightarrow>
     position_ok (records s) (positionById s) \<and>
     (\<forall>d. recordIdsByDevice s d = id_index (of_device d (records s))) \<and>
     (\<forall>b. recordIdsByBatch s b = (if b = [] then None else id_index (of_batch b (records s)))) \<and>
     (\<forall>i \<in> set (ids (records s)). i < nextRecordId s)"

text \<open>Ids do not wrap around yet: one more record fits.\<close>

definition mem_room :: "in_memory \<Rightarrow> bool" where
  "mem_room s \<longleftrightarrow> nextRecordId s + 1 \<noteq> 0"

lemma position_ok_distinct:
  assumes "position_ok rs m"
  shows "distinct (ids rs)"
  unfolding distinct_conv_nth
proof (intro allI impI)
  fix k l assume kl: "k < length (ids rs)" "l < length (ids rs)" "k \<noteq> l"
  show "ids rs ! k \<noteq> ids rs ! l"
  proof
    assume eq: "ids rs ! k = ids rs ! l"
    then have "m (recordId (rs ! k)) = Some k" "m (recordId (rs ! k)) = Some l"
      using assms kl by (auto simp: position_ok_def ids_def)
    with kl(3) show False by simp
  qed
qed

lemma position_ok_iff:
  assumes "position_ok rs m"
  shows "m i = None \<longleftrightarrow> i \<notin> set (ids rs)"
proof -
  have "m i \<noteq> None \<longleftrightarrow> (\<exists>k < length rs. recordId (rs ! k) = i)"
    using assms by (auto simp: position_ok_def)
  also have "\<dots> \<longleftrightarrow> i \<in> set (ids rs)"
    by (auto simp: ids_def in_set_conv_nth image_iff Bex_def)
  finally show ?thesis by blast
qed

lemma position_ok_snoc:
  assumes "position_ok rs m" "recordId r \<notin> set (ids rs)"
  shows "position_ok (rs @ [r]) (m(recordId r \<mapsto> length rs))"
proof -
  have "recordId (rs ! k) \<noteq> recordId r" if "k < length rs" for k
  proof -
    have "recordId (rs ! k) \<in> set (ids rs)" using that by (simp add: ids_def)
    with assms(2) show ?thesis by metis
  qed
  with assms(1) show ?thesis
    by (auto simp: position_ok_def nth_append less_Suc_eq)
qed

lemma push_id_index:
  "m k = id_index rs \<Longrightarrow> push_id k (recordId r) m k = id_index (rs @ [r])"
  by (simp add: push_id_def id_index_def)

lemma push_id_other: "k \<noteq> k' \<Longrightarrow> push_id k i m k' = m k'"
  by (simp add: push_id_def)

lemma mem_inv_empty: "mem_inv mem_empty"
  by (simp add: mem_inv_def mem_empty_def position_ok_def id_index_def of_device_def of_batch_def)

lemma less_next_word:
  "(w :: u64) + 1 \<noteq> 0 \<Longrightarrow> w < w + 1"
  using unatSuc [of w] by (simp add: word_less_nat_alt add.commute)

lemma mem_inv_Save:
  assumes inv: "mem_inv s" and room: "mem_room s" and save: "mem_Save p s = (i, s')"
  shows "mem_inv s' \<and> i \<notin> set (ids (records s)) \<and> records s' = records s @ [new_record i p]"
proof -
  let ?r = "new_record i p"
  from save have i: "i = nextRecordId s" and s': "records s' = records s @ [?r]"
      "positionById s' = (positionById s)(i \<mapsto> length (records s))"
      "recordIdsByDevice s' = push_id (deviceId p) i (recordIdsByDevice s)"
      "recordIdsByBatch s' = (if batchCode p \<noteq> [] then push_id (batchCode p) i (recordIdsByBatch s)
         else recordIdsByBatch s)"
      "nextRecordId s' = i + 1"
    by (auto simp: mem_Save_def Let_def)
  from inv have fresh: "i \<notin> set (ids (records s))" by (auto simp: mem_inv_def i)
  have "position_ok (records s') (positionById s')"
    using inv fresh position_ok_snoc [of "records s" "positionById s" ?r] by (simp add: mem_inv_def s')
  moreover have "recordIdsByDevice s' d = id_index (of_device d (records s'))" for d
    using inv push_id_index [of "recordIdsByDevice s" d "of_device d (records s)" ?r]
    by (cases "deviceId p = d") (auto simp: mem_inv_def s' of_device_def push_id_other)
  moreover have "recordIdsByBatch s' b = (if b = [] then None else id_index (of_batch b (records s')))" for b
    using inv push_id_index [of "recordIdsByBatch s" b "of_batch b (records s)" ?r]
    by (cases "batchCode p = b") (auto simp: mem_inv_def s' of_batch_def push_id_other)
  moreover have "i < i + 1" using room less_next_word by (simp add: mem_room_def i)
  then have "\<forall>j \<in> set (ids (records s')). j < nextRecordId s'"
    using inv by (auto simp: mem_inv_def s' i dest: less_trans)
  ultimately show ?thesis using fresh s'(1) by (simp add: mem_inv_def)
qed


lemma list_update_attach:
  assumes "position_ok rs m" "m i = Some k"
  shows "rs[k := (rs ! k)\<lparr>receipt := Some rc\<rparr>] = store_attach i rc rs"
proof (rule nth_equalityI)
  fix j assume "j < length (rs[k := (rs ! k)\<lparr>receipt := Some rc\<rparr>])"
  then have j: "j < length rs" by simp
  have "recordId (rs ! j) = i \<longleftrightarrow> j = k"
    using assms j by (auto simp: position_ok_def) (metis option.inject)
  with j show "rs[k := (rs ! k)\<lparr>receipt := Some rc\<rparr>] ! j = store_attach i rc rs ! j"
    by (auto simp: store_attach_def)
qed (simp add: store_attach_def)

lemma id_index_store_attach:
  assumes "\<And>r. P (r\<lparr>receipt := Some rc\<rparr>) = P r"
  shows "id_index (filter P (store_attach i rc rs)) = id_index (filter P rs)"
proof -
  have "ids (filter P (store_attach i rc rs)) = ids (filter P rs)"
    using assms by (induction rs) (auto simp: store_attach_def)
  moreover from this have "filter P (store_attach i rc rs) = [] \<longleftrightarrow> filter P rs = []"
    by (metis ids_simps(4) length_0_conv)
  ultimately show ?thesis by (simp add: id_index_def)
qed

lemma position_ok_store_attach: "position_ok (store_attach i rc rs) m \<longleftrightarrow> position_ok rs m"
  by (auto simp: position_ok_def store_attach_def)

lemma mem_AttachReceipt_cases:
  assumes "mem_inv s"
  shows "mem_AttachReceipt i rc s =
    (if i \<in> set (ids (records s))
     then (True, s\<lparr> records := store_attach i rc (records s),
                    recordIdByTxHash := (recordIdByTxHash s)(txHash rc \<mapsto> i) \<rparr>)
     else (False, s))"
proof -
  have pos: "position_ok (records s) (positionById s)" using assms by (simp add: mem_inv_def)
  show ?thesis
    using position_ok_iff [OF pos, of i] list_update_attach [OF pos, of i]
    by (cases "positionById s i") (auto simp: mem_AttachReceipt_def)
qed

lemma mem_inv_AttachReceipt:
  assumes "mem_inv s"
  shows "mem_inv (s\<lparr> records := store_attach i rc (records s), recordIdByTxHash := m \<rparr>)"
  using assms id_index_store_attach [of "\<lambda>r. deviceId (packet r) = d" for d]
    id_index_store_attach [of "\<lambda>r. batchCode (packet r) = b" for b]
  by (simp add: mem_inv_def position_ok_store_attach of_device_def of_batch_def)

section \<open>Deletion\<close>

lemma fold_upd_other:
  "\<forall>k \<in> set ks. f k \<noteq> i \<Longrightarrow> fold (\<lambda>k m. m(f k \<mapsto> k)) ks m i = m i"
  by (induction ks arbitrary: m) auto

lemma fold_upd_at:
  "k \<in> set ks \<Longrightarrow> inj_on f (set ks) \<Longrightarrow> distinct ks \<Longrightarrow> fold (\<lambda>k m. m(f k \<mapsto> k)) ks m (f k) = Some k"
proof (induction ks arbitrary: m)
  case (Cons a ks)
  show ?case
  proof (cases "k = a")
    case True
    with Cons.prems have "\<forall>j \<in> set ks. f j \<noteq> f k" by (auto simp: inj_on_def)
    have "fold (\<lambda>k m. m(f k \<mapsto> k)) ks (m(f a \<mapsto> a)) (f k) = (m(f a \<mapsto> a)) (f k)"
      using fold_upd_other [OF \<open>\<forall>j \<in> set ks. f j \<noteq> f k\<close>] .
    with True show ?thesis by (simp del: fun_upd_apply add: fun_upd_same)
  next
    case False
    with Cons show ?thesis by (auto simp: inj_on_def)
  qed
qed simp

lemma reindex_eq:
  assumes "distinct (ids rs)"
  shows "reindex a rs m i = Some k \<longleftrightarrow>
    (if \<exists>j. a \<le> j \<and> j < length rs \<and> recordId (rs ! j) = i
     then a \<le> k \<and> k < length rs \<and> recordId (rs ! k) = i else m i = Some k)"
proof (cases "\<exists>j. a \<le> j \<and> j < length rs \<and> recordId (rs ! j) = i")
  case True
  then obtain j where j: "a \<le> j" "j < length rs" "recordId (rs ! j) = i" by blast
  have inj: "k = j" if "k < length rs" "recordId (rs ! k) = i" for k
    using assms that j nth_eq_iff_index_eq [of "ids rs" k j] by (simp add: ids_def)
  have "inj_on (\<lambda>k. recordId (rs ! k)) (set [a ..< length rs])"
  proof (rule inj_onI)
    fix x y assume xy: "x \<in> set [a ..< length rs]" "y \<in> set [a ..< length rs]"
      and eq: "recordId (rs ! x) = recordId (rs ! y)"
    from xy have "x < length (ids rs)" "y < length (ids rs)" by simp_all
    with eq nth_eq_iff_index_eq [OF assms, of x y] show "x = y" by (simp add: ids_def)
  qed
  moreover have "j \<in> set [a ..< length rs]" using j by simp
  ultimately have "reindex a rs m (recordId (rs ! j)) = Some j"
    unfolding reindex_def by (intro fold_upd_at [where f = "\<lambda>k. recordId (rs ! k)"]) simp_all
  then have "reindex a rs m i = Some j" using j(3) by simp
  then have "reindex a rs m i = Some k \<longleftrightarrow> j = k" by simp
  also have "\<dots> \<longleftrightarrow> a \<le> k \<and> k < length rs \<and> recordId (rs ! k) = i"
    using j inj [of k] by blast
  finally show ?thesis using True by simp
next
  case False
  then show ?thesis
    using fold_upd_other [of "[a ..< length rs]" "\<lambda>k. recordId (rs ! k)" i m] by (auto simp: reindex_def)
qed

lemma position_ok_delete:
  assumes pos: "position_ok rs m" and p: "m i = Some p"
  shows "position_ok (store_delete i rs) (reindex p (store_delete i rs) (m(i := None)))"
    and "store_delete i rs = take p rs @ drop (Suc p) rs"
proof -
  from pos p have pl: "p < length rs" "recordId (rs ! p) = i" by (auto simp: position_ok_def)
  have split: "rs = take p rs @ rs ! p # drop (Suc p) rs" using pl by (simp add: Cons_nth_drop_Suc)
  have d: "distinct (ids rs)" using pos by (rule position_ok_distinct)
  have "ids rs = ids (take p rs) @ i # ids (drop (Suc p) rs)"
    using arg_cong [OF split, of ids] pl by simp
  with d have notin: "i \<notin> set (ids (take p rs))" "i \<notin> set (ids (drop (Suc p) rs))" by simp_all
  have "store_delete i (take p rs @ rs ! p # drop (Suc p) rs) = take p rs @ drop (Suc p) rs"
    using notin pl(2) by (simp add: store_delete_append store_delete_absent)
      (simp add: store_delete_def store_delete_absent [unfolded store_delete_def])
  with split show del: "store_delete i rs = take p rs @ drop (Suc p) rs" by metis
  let ?rs = "store_delete i rs"
  have nth: "?rs ! k = (if k < p then rs ! k else rs ! Suc k)" if "k < length ?rs" for k
    using that pl by (auto simp: del nth_append)
  have len: "Suc (length ?rs) = length rs" using pl by (simp add: del)
  have dist: "distinct (ids ?rs)" using d by (auto simp: ids_def store_delete_def distinct_map_filter)
  show "position_ok ?rs (reindex p ?rs (m(i := None)))"
    unfolding position_ok_def
  proof (intro allI)
    fix j k
    have low: "(m(i := None)) j = Some k \<longleftrightarrow> k < length rs \<and> recordId (rs ! k) = j \<and> k \<noteq> p"
    proof (cases "j = i")
      case True
      with pos pl p show ?thesis unfolding position_ok_def by (metis fun_upd_same option.inject option.distinct(1))
    next
      case False
      with pos pl show ?thesis by (auto simp: position_ok_def)
    qed
    have high: "k < length ?rs \<Longrightarrow> recordId (?rs ! k) = j \<Longrightarrow> p \<le> k' \<Longrightarrow> k' < length ?rs \<Longrightarrow>
        recordId (?rs ! k') = j \<Longrightarrow> p \<le> k" for k'
      using dist nth_eq_iff_index_eq [of "ids ?rs" k k'] by (simp add: ids_def)
    show "reindex p ?rs (m(i := None)) j = Some k \<longleftrightarrow> k < length ?rs \<and> recordId (?rs ! k) = j"
    proof (cases "\<exists>l. p \<le> l \<and> l < length ?rs \<and> recordId (?rs ! l) = j")
      case True
      then show ?thesis using high by (auto simp: reindex_eq [OF dist])
    next
      case False
      have "k < length rs \<and> recordId (rs ! k) = j \<and> k \<noteq> p \<longleftrightarrow> k < length ?rs \<and> recordId (?rs ! k) = j"
      proof (cases "k < p")
        case True
        then show ?thesis using nth [of k] len pl by auto
      next
        case kp: False
        have "\<not> (k < length rs \<and> recordId (rs ! k) = j \<and> k \<noteq> p)"
        proof
          assume k: "k < length rs \<and> recordId (rs ! k) = j \<and> k \<noteq> p"
          with kp have "p \<le> k - 1" "k - 1 < length ?rs" "Suc (k - 1) = k" using len by auto
          with nth [of "k - 1"] k False show False by auto
        qed
        moreover have "\<not> (k < length ?rs \<and> recordId (?rs ! k) = j)" using False kp by auto
        ultimately show ?thesis by blast
      qed
      with low show ?thesis unfolding reindex_eq [OF dist] if_not_P [OF False] by simp
    qed
  qed
qed


lemma removeAll_filter_ids: "removeAll i (ids rs) = ids (store_delete i rs)"
  by (induction rs) (auto simp: store_delete_def)

lemma store_delete_filter: "store_delete i (filter P rs) = filter P (store_delete i rs)"
  by (simp add: store_delete_def conj_commute)

lemma erase_id_index:
  assumes "m k = id_index rs"
  shows "erase_id k i m k = id_index (store_delete i rs)"
proof -
  have "ids (store_delete i rs) = [] \<longleftrightarrow> store_delete i rs = []" by (simp add: ids_def)
  then show ?thesis using assms
    by (auto simp: erase_id_def id_index_def removeAll_filter_ids store_delete_absent)
qed

lemma erase_id_other: "k \<noteq> k' \<Longrightarrow> erase_id k i m k' = m k'"
  by (simp add: erase_id_def split: option.splits)

text \<open>Deleting a record leaves alone the list of every other device or batch.\<close>

lemma store_delete_other_filter:
  assumes "distinct (ids rs)" "p < length rs" "recordId (rs ! p) = i" "\<not> P (rs ! p)"
  shows "filter P (store_delete i rs) = filter P rs"
proof -
  have "recordId r \<noteq> i" if r: "r \<in> set rs" "P r" for r
  proof
    assume eq: "recordId r = i"
    from r obtain k where k: "k < length rs" "rs ! k = r" by (auto simp: in_set_conv_nth)
    with eq assms(1-3) nth_eq_iff_index_eq [of "ids rs" k p] have "k = p" by (simp add: ids_def)
    with k r assms(4) show False by simp
  qed
  then show ?thesis by (auto simp: store_delete_def intro: filter_cong)
qed

lemma mem_Delete_cases:
  assumes inv: "mem_inv s"
  shows "mem_Delete i s = (b, s') \<Longrightarrow>
    (b \<longleftrightarrow> i \<in> set (ids (records s))) \<and> records s' = store_delete i (records s) \<and> mem_inv s'"
proof -
  assume del: "mem_Delete i s = (b, s')"
  have pos: "position_ok (records s) (positionById s)" using inv by (simp add: mem_inv_def)
  show ?thesis
  proof (cases "positionById s i")
    case None
    with pos del inv show ?thesis
      by (auto simp: mem_Delete_def position_ok_iff store_delete_absent)
  next
    case (Some p)
    let ?r = "records s ! p"
    from pos Some have p: "p < length (records s)" "recordId ?r = i" by (auto simp: position_ok_def)
    note other = store_delete_other_filter [OF position_ok_distinct [OF pos] p]
    have mem: "i \<in> set (ids (records s))" using position_ok_iff [OF pos, of i] Some by auto
    have rs: "take p (records s) @ drop (Suc p) (records s) = store_delete i (records s)"
      using position_ok_delete(2) [OF pos Some] by simp
    from del Some rs have b: "b" and s': "records s' = store_delete i (records s)"
        "positionById s' = reindex p (store_delete i (records s)) ((positionById s)(i := None))"
        "recordIdsByDevice s' = erase_id (deviceId (packet ?r)) i (recordIdsByDevice s)"
        "recordIdsByBatch s' = (if batchCode (packet ?r) \<noteq> []
           then erase_id (batchCode (packet ?r)) i (recordIdsByBatch s) else recordIdsByBatch s)"
        "nextRecordId s' = nextRecordId s"
      by (auto simp: mem_Delete_def Let_def)
    have "position_ok (records s') (positionById s')"
      unfolding s' by (rule position_ok_delete(1) [OF pos Some])
    moreover have "recordIdsByDevice s' d = id_index (of_device d (records s'))" for d
    proof (cases "deviceId (packet ?r) = d")
      case True
      with inv erase_id_index [of "recordIdsByDevice s" d "of_device d (records s)" i]
      show ?thesis by (simp add: mem_inv_def s' of_device_def store_delete_filter)
    next
      case False
      with inv other [of "\<lambda>r. deviceId (packet r) = d"]
      show ?thesis by (simp add: mem_inv_def s' of_device_def erase_id_other)
    qed
    moreover have "recordIdsByBatch s' c = (if c = [] then None else id_index (of_batch c (records s')))" for c
    proof (cases "batchCode (packet ?r) = c")
      case True
      with inv erase_id_index [of "recordIdsByBatch s" c "of_batch c (records s)" i]
      show ?thesis by (simp add: mem_inv_def s' of_batch_def store_delete_filter)
    next
      case False
      with inv other [of "\<lambda>r. batchCode (packet r) = c"]
      show ?thesis by (simp add: mem_inv_def s' of_batch_def erase_id_other)
    qed
    moreover have "\<forall>j \<in> set (ids (records s')). j < nextRecordId s'"
      using inv by (simp add: mem_inv_def s')
    ultimately show ?thesis using b mem s'(1) by (simp add: mem_inv_def)
  qed
qed

section \<open>The queries\<close>

lemma FindByIdLocked_stored:
  assumes "mem_inv s" "r \<in> set (records s)"
  shows "FindByIdLocked (recordId r) s = Some r"
proof -
  from assms(2) obtain k where "k < length (records s)" "records s ! k = r"
    by (auto simp: in_set_conv_nth)
  with assms(1) have "positionById s (recordId r) = Some k"
    by (auto simp: mem_inv_def position_ok_def)
  with \<open>records s ! k = r\<close> show ?thesis by (simp add: FindByIdLocked_def)
qed

lemma FindByIdLocked_absent:
  assumes "mem_inv s" "i \<notin> set (ids (records s))"
  shows "FindByIdLocked i s = None"
  using assms position_ok_iff [of "records s" "positionById s" i]
  by (simp add: mem_inv_def FindByIdLocked_def)

lemma FindByIdLocked_Some:
  assumes "mem_inv s" "FindByIdLocked i s = Some r"
  shows "r \<in> set (records s) \<and> recordId r = i"
  using assms by (auto simp: mem_inv_def position_ok_def FindByIdLocked_def split: option.splits)

lemma mem_LatestByDevice_eq:
  assumes "mem_inv s"
  shows "mem_LatestByDevice d s =
    (if of_device d (records s) = [] then None else Some (last (of_device d (records s))))"
proof (cases "of_device d (records s) = []")
  case True
  with assms show ?thesis by (simp add: mem_LatestByDevice_def mem_inv_def id_index_def)
next
  case False
  then have "last (of_device d (records s)) \<in> set (records s)"
    by (metis last_in_set of_device_def filter_is_subset subsetD)
  from FindByIdLocked_stored [OF assms this] False assms show ?thesis
    by (simp add: mem_LatestByDevice_def mem_inv_def id_index_def last_map ids_def)
qed

lemma mem_FindByBatch_eq:
  assumes "mem_inv s" "b \<noteq> []"
  shows "mem_FindByBatch b s = of_batch b (records s)"
proof -
  have "concat (map (\<lambda>i. case FindByIdLocked i s of None \<Rightarrow> [] | Some r \<Rightarrow> [r]) (ids rs)) = rs"
    if "set rs \<subseteq> set (records s)" for rs
    using that FindByIdLocked_stored [OF assms(1)] by (induction rs) auto
  from this [of "of_batch b (records s)"] assms show ?thesis
    by (auto simp: mem_FindByBatch_def mem_inv_def id_index_def of_batch_def)
qed

section \<open>The contract\<close>

interpretation mem: telemetry_store in_memory_repository mem_inv mem_room records "\<lambda>p. p" "\<lambda>rc. rc" "\<lambda>k. k"
proof
  show "mem_inv s' \<and> i \<notin> set (ids (records s)) \<and> records s' = records s @ [new_record i p]"
    if "mem_inv s" "mem_room s" "Save in_memory_repository p s = (Inr i, s')" for s p i s'
    using that mem_inv_Save [of s p i s'] by (cases "mem_Save p s") (simp add: in_memory_repository_def)
  show "mem_inv s' \<and> records s' = records s"
    if "mem_inv s" "Save in_memory_repository p s = (Inl e, s')" for s p e s'
    using that by (cases "mem_Save p s") (simp add: in_memory_repository_def)
  show "mem_inv s' \<and> (b \<longleftrightarrow> i \<in> set (ids (records s))) \<and> records s' = store_attach i rc (records s)"
    if "mem_inv s" "AttachReceipt in_memory_repository i rc s = (Inr b, s')" for s i rc b s'
    using that mem_inv_AttachReceipt [of s]
    by (auto simp: in_memory_repository_def mem_AttachReceipt_cases store_attach_absent split: if_splits)
  show "mem_inv s' \<and> records s' = records s"
    if "mem_inv s" "AttachReceipt in_memory_repository i rc s = (Inl e, s')" for s i rc e s'
    using that by (cases "mem_AttachReceipt i rc s") (simp add: in_memory_repository_def)
  show "mem_inv s' \<and> (b \<longleftrightarrow> i \<in> set (ids (records s))) \<and> records s' = store_delete i (records s)"
    if "mem_inv s" "Delete in_memory_repository i s = (Inr b, s')" for s i b s'
    using that mem_Delete_cases [of s i b s']
    by (cases "mem_Delete i s") (simp add: in_memory_repository_def)
  show "mem_inv s' \<and> records s' = records s"
    if "mem_inv s" "Delete in_memory_repository i s = (Inl e, s')" for s i e s'
    using that by (cases "mem_Delete i s") (simp add: in_memory_repository_def)
  show "distinct (ids (records s))" if "mem_inv s" for s
    using that position_ok_distinct by (auto simp: mem_inv_def)
  show "r \<in> set (of_device d (records s))"
    if "mem_inv s" "LatestByDevice in_memory_repository d s = Inr (Some r)" for s d r
    using that by (auto simp: in_memory_repository_def mem_LatestByDevice_eq split: if_splits)
  show "of_device d (records s) = []"
    if "mem_inv s" "LatestByDevice in_memory_repository d s = Inr None" for s d
    using that by (auto simp: in_memory_repository_def mem_LatestByDevice_eq split: if_splits)
  show "mset rs = mset (of_batch c (records s))"
    if "mem_inv s" "c \<noteq> []" "FindByBatch in_memory_repository c s = Inr rs" for s c rs
    using that by (auto simp: in_memory_repository_def mem_FindByBatch_eq)
  show "n = of_nat (length (records s))"
    if "mem_inv s" "Size in_memory_repository s = Inr n" for s n
    using that by (simp add: in_memory_repository_def mem_Size_def)
qed

section \<open>Refinement of the abstract store\<close>

definition mem_rel :: "in_memory \<Rightarrow> u64 \<times> telemetry_record list \<Rightarrow> bool" where
  "mem_rel s a \<longleftrightarrow> mem_inv s \<and> nextRecordId s = fst a \<and> records s = snd a"

lemma nextRecordId_simps:
  "nextRecordId (snd (mem_Save p s)) = nextRecordId s + 1"
  "nextRecordId (snd (mem_AttachReceipt i rc s)) = nextRecordId s"
  "nextRecordId (snd (mem_Delete i s)) = nextRecordId s"
  by (auto simp: mem_Save_def mem_AttachReceipt_def mem_Delete_def Let_def split: option.splits)

lemma mem_rel_step:
  assumes "mem_rel s a" "mem_room s"
  shows "mem_rel (repo_step in_memory_repository c s) (store_step c a)"
proof -
  obtain n rs where a: "a = (n, rs)" by (cases a)
  show ?thesis
  proof (cases c)
    case (SaveCall p)
    obtain i s' where sv: "mem_Save p s = (i, s')" by fastforce
    then have "i = n" using assms(1) by (simp add: mem_Save_def Let_def mem_rel_def a)
    with mem_inv_Save [OF _ assms(2) sv] nextRecordId_simps(1) [of p s] assms(1) show ?thesis
      by (simp add: SaveCall a mem_rel_def in_memory_repository_def sv)
  next
    case (AttachCall i rc)
    with assms(1) mem_inv_AttachReceipt [of s] show ?thesis
      by (auto simp: a mem_rel_def in_memory_repository_def mem_AttachReceipt_cases store_attach_absent)
  next
    case (DeleteCall i)
    obtain b s' where dl: "mem_Delete i s = (b, s')" by fastforce
    with mem_Delete_cases [OF _ dl] nextRecordId_simps(3) [of i s] assms(1) show ?thesis
      by (simp add: DeleteCall a mem_rel_def in_memory_repository_def)
  qed
qed

lemma mem_room_unat: "unat (nextRecordId s) < 2 ^ 64 - 1 \<Longrightarrow> mem_room s"
  unfolding mem_room_def
proof
  assume "unat (nextRecordId s) < 2 ^ 64 - 1" "nextRecordId s + 1 = 0"
  then have "nextRecordId s = - 1" by (simp add: eq_neg_iff_add_eq_0)
  moreover have "unat (- 1 :: u64) = 2 ^ 64 - 1" by (simp add: unsigned_minus_1_eq_mask mask_eq_exp_minus_1)
  ultimately have "unat (nextRecordId s) = 2 ^ 64 - 1" by simp
  with \<open>unat (nextRecordId s) < 2 ^ 64 - 1\<close> show False by simp
qed

lemma nextRecordId_step:
  assumes "mem_room s"
  shows "unat (nextRecordId (repo_step in_memory_repository c s)) \<le> Suc (unat (nextRecordId s))"
  using nextRecordId_simps(1) [of _ s] nextRecordId_simps(2) [of _ _ s] nextRecordId_simps(3) [of _ s]
    assms unatSuc [of "nextRecordId s"]
  by (cases c) (simp_all add: in_memory_repository_def mem_room_def add.commute)

lemma mem_rel_run:
  assumes "mem_rel s a" "unat (nextRecordId s) + length cs < 2 ^ 64"
  shows "mem_rel (repo_run in_memory_repository cs s) (store_run cs a)"
  using assms
proof (induction cs arbitrary: s a)
  case (Cons c cs)
  have room: "mem_room s" by (rule mem_room_unat) (use Cons.prems(2) in simp)
  note nextRecordId_step [OF room, of c]
  then show ?case
    using Cons.IH [OF mem_rel_step [OF Cons.prems(1) room, of c]] Cons.prems(2)
    by (simp add: repo_run_def store_run_def)
qed (simp add: repo_run_def store_run_def)

text \<open>
  C6: the in-memory repository implements the abstract store. After any sequence of fewer than
  \<open>2 ^ 64 - 1\<close> calls on an empty repository its vector is the list the abstract operations
  give, the latest record of a device is the last one that arrived, a batch query returns exactly
  the batch's records in order of arrival, and the size is their number: the four indexes never
  disagree with the vector, through deletions in the middle as well.
\<close>
theorem in_memory_refines_store:
  assumes "length cs < 2 ^ 64 - 1"
  defines "s \<equiv> repo_run in_memory_repository cs mem_empty"
    and "rs \<equiv> snd (store_run cs (1, []))"
  shows "records s = rs
    \<and> LatestByDevice in_memory_repository d s =
        Inr (if of_device d rs = [] then None else Some (last (of_device d rs)))
    \<and> FindByBatch in_memory_repository b s = Inr (if b = [] then [] else of_batch b rs)
    \<and> Size in_memory_repository s = Inr (of_nat (length rs))"
proof -
  have "mem_rel mem_empty (1, [])" using mem_inv_empty by (simp add: mem_rel_def mem_empty_def)
  moreover have "unat (nextRecordId mem_empty) + length cs < 2 ^ 64"
    using assms(1) by (simp add: mem_empty_def)
  ultimately have "mem_rel s (store_run cs (1, []))" unfolding s_def by (rule mem_rel_run)
  then have inv: "mem_inv s" and rs: "records s = rs" by (simp_all add: mem_rel_def rs_def)
  moreover have "mem_FindByBatch [] s = []" using inv by (simp add: mem_FindByBatch_def mem_inv_def)
  ultimately show ?thesis
    by (simp add: in_memory_repository_def mem_LatestByDevice_eq mem_FindByBatch_eq mem_Size_def)
qed

theorem in_memory_refines_store_witness:
  "let p = default_packet\<lparr> deviceId := ''d'', batchCode := ''b'' \<rparr>;
       s = repo_run in_memory_repository [SaveCall p, SaveCall p, DeleteCall 1] mem_empty
   in LatestByDevice in_memory_repository ''d'' s = Inr (Some (new_record 2 p))
      \<and> FindByBatch in_memory_repository ''b'' s = Inr [new_record 2 p]"
  using in_memory_refines_store [of "[SaveCall (default_packet\<lparr> deviceId := ''d'', batchCode := ''b'' \<rparr>),
      SaveCall (default_packet\<lparr> deviceId := ''d'', batchCode := ''b'' \<rparr>), DeleteCall 1]" "''d''" "''b''"]
  by (simp add: store_run_def store_delete_def of_device_def of_batch_def)

section \<open>The transaction index\<close>

definition tx_ok :: "in_memory \<Rightarrow> bool" where
  "tx_ok s \<longleftrightarrow> (\<forall>t i. recordIdByTxHash s t = Some i \<longleftrightarrow> (\<exists>r \<in> set (records s). recordId r = i \<and> has_tx t r))"

lemma tx_ok_empty: "tx_ok mem_empty"
  by (simp add: tx_ok_def mem_empty_def)

lemma tx_ok_Save: "tx_ok s \<Longrightarrow> mem_Save p s = (i, s') \<Longrightarrow> tx_ok s'"
  by (auto simp: tx_ok_def mem_Save_def Let_def)

lemma records_by_id:
  assumes "mem_inv s" "q \<in> set (records s)" "r \<in> set (records s)" "recordId q = recordId r"
  shows "q = r"
  using FindByIdLocked_stored [OF assms(1,2)] FindByIdLocked_stored [OF assms(1,3)] assms(4)
  by (metis option.inject)

lemma tx_ok_index:
  "tx_ok s \<Longrightarrow> r \<in> set (records s) \<Longrightarrow> has_tx t r \<Longrightarrow> recordIdByTxHash s t = Some (recordId r)"
  unfolding tx_ok_def by (drule spec [of _ t], drule spec [of _ "recordId r"]) blast

lemma tx_ok_unique:
  assumes "mem_inv s" "tx_ok s" "q \<in> set (records s)" "r \<in> set (records s)" "has_tx t q" "has_tx t r"
  shows "q = r"
  using tx_ok_index [OF assms(2,3,5)] tx_ok_index [OF assms(2,4,6)] records_by_id [OF assms(1,3,4)]
  by simp

lemma tx_ok_Attach:
  assumes inv: "mem_inv s" and tx: "tx_ok s" and att: "mem_AttachReceipt i rc s = (b, s')"
    and bare: "\<And>r. r \<in> set (records s) \<Longrightarrow> recordId r = i \<Longrightarrow> receipt r = None"
    and fresh: "\<And>r. r \<in> set (records s) \<Longrightarrow> \<not> has_tx (txHash rc) r"
  shows "tx_ok s'"
proof (cases "i \<in> set (ids (records s))")
  case False
  with inv att tx show ?thesis by (simp add: mem_AttachReceipt_cases)
next
  case True
  with inv att have s': "records s' = store_attach i rc (records s)"
    "recordIdByTxHash s' = (recordIdByTxHash s)(txHash rc \<mapsto> i)"
    by (auto simp: mem_AttachReceipt_cases)
  from True obtain r where r: "r \<in> set (records s)" "recordId r = i" by (auto simp: ids_def)
  have "(\<exists>q \<in> set (records s'). recordId q = j \<and> has_tx t q) \<longleftrightarrow>
      (if t = txHash rc then j = i else \<exists>q \<in> set (records s). recordId q = j \<and> has_tx t q)" for j t
  proof (cases "t = txHash rc")
    case True
    have "\<exists>q \<in> set (records s'). recordId q = i \<and> has_tx t q"
      using r True by (intro bexI [of _ "r\<lparr>receipt := Some rc\<rparr>"]) (auto simp: s' store_attach_def)
    moreover have "recordId q = i" if "q \<in> set (records s')" "has_tx t q" for q
      using that fresh True by (auto simp: s' store_attach_def split: if_splits)
    ultimately show ?thesis using True by auto
  next
    case False
    have "has_tx t q \<Longrightarrow> recordId q = i \<Longrightarrow> q \<in> set (records s) \<Longrightarrow> False" for q
      using bare [of q] by (simp add: has_tx_def)
    with False show ?thesis by (fastforce simp: s' store_attach_def image_iff)
  qed
  then show ?thesis using tx by (auto simp: tx_ok_def s')
qed

lemma tx_ok_Delete:
  assumes inv: "mem_inv s" and tx: "tx_ok s" and del: "mem_Delete i s = (b, s')"
  shows "tx_ok s'"
proof (cases "positionById s i")
  case None
  with del tx show ?thesis by (simp add: mem_Delete_def)
next
  case (Some p)
  let ?r = "records s ! p"
  from inv Some have r: "?r \<in> set (records s)" "recordId ?r = i"
    by (auto simp: mem_inv_def position_ok_def)
  from mem_Delete_cases [OF inv del] have rs: "records s' = store_delete i (records s)" by simp
  have m: "recordIdByTxHash s' t = (if has_tx t ?r then None else recordIdByTxHash s t)" for t
    using del Some by (auto simp: mem_Delete_def Let_def has_tx_def split: option.splits)
  have "(\<exists>q \<in> set (records s'). recordId q = j \<and> has_tx t q) \<longleftrightarrow>
      \<not> has_tx t ?r \<and> (\<exists>q \<in> set (records s). recordId q = j \<and> has_tx t q)" for j t
    using tx_ok_unique [OF inv tx _ r(1), of _ t] records_by_id [OF inv _ r(1)] r(2)
    by (auto simp: rs store_delete_def)
  with tx m show ?thesis by (simp add: tx_ok_def)
qed

lemma mem_FindByTransaction_eq:
  assumes inv: "mem_inv s" and tx: "tx_ok s"
  shows "mem_FindByTransaction t s = find (has_tx t) (records s)"
proof (cases "find (has_tx t) (records s)")
  case None
  then have "recordIdByTxHash s t = None"
    using tx by (cases "recordIdByTxHash s t") (auto simp: tx_ok_def find_None_iff)
  with None show ?thesis by (simp add: mem_FindByTransaction_def)
next
  case (Some r)
  then have r: "r \<in> set (records s)" "has_tx t r" by (auto simp: find_Some_iff)
  then have "recordIdByTxHash s t = Some (recordId r)" using tx by (auto simp: tx_ok_def)
  with FindByIdLocked_stored [OF inv r(1)] Some show ?thesis by (simp add: mem_FindByTransaction_def)
qed


text \<open>Calls that attach a receipt only to a record without one, under a hash not yet attached.\<close>

fun attaches_fresh :: "repo_call \<Rightarrow> telemetry_record list \<Rightarrow> bool" where
  "attaches_fresh (AttachCall i rc) rs \<longleftrightarrow>
     (\<forall>r \<in> set rs. recordId r = i \<longrightarrow> receipt r = None) \<and> (\<forall>r \<in> set rs. \<not> has_tx (txHash rc) r)"
| "attaches_fresh (SaveCall p) rs \<longleftrightarrow> True"
| "attaches_fresh (DeleteCall i) rs \<longleftrightarrow> True"

fun fresh_calls :: "repo_call list \<Rightarrow> u64 \<times> telemetry_record list \<Rightarrow> bool" where
  "fresh_calls [] a \<longleftrightarrow> True"
| "fresh_calls (c # cs) a \<longleftrightarrow> attaches_fresh c (snd a) \<and> fresh_calls cs (store_step c a)"

lemma tx_ok_step:
  assumes "mem_rel s a" "tx_ok s" "attaches_fresh c (snd a)"
  shows "tx_ok (repo_step in_memory_repository c s)"
proof (cases c)
  case (SaveCall p)
  with tx_ok_Save [OF assms(2), of p] show ?thesis
    by (cases "mem_Save p s") (simp add: in_memory_repository_def)
next
  case (AttachCall i rc)
  with tx_ok_Attach [OF _ assms(2), of i rc] assms(1,3) show ?thesis
    by (cases "mem_AttachReceipt i rc s") (simp add: in_memory_repository_def mem_rel_def)
next
  case (DeleteCall i)
  with tx_ok_Delete [OF _ assms(2), of i] assms(1) show ?thesis
    by (cases "mem_Delete i s") (simp add: in_memory_repository_def mem_rel_def)
qed

lemma tx_ok_run:
  assumes "mem_rel s a" "tx_ok s" "fresh_calls cs a" "unat (nextRecordId s) + length cs < 2 ^ 64"
  shows "tx_ok (repo_run in_memory_repository cs s)"
  using assms
proof (induction cs arbitrary: s a)
  case (Cons c cs)
  let ?s = "repo_step in_memory_repository c s"
  have room: "mem_room s" by (rule mem_room_unat) (use Cons.prems(4) in simp)
  have "mem_rel ?s (store_step c a) \<and> unat (nextRecordId ?s) + length cs < 2 ^ 64"
    using nextRecordId_step [OF room, of c] mem_rel_step [OF Cons.prems(1) room, of c] Cons.prems(4)
    by simp
  then show ?case
    using Cons.IH [of ?s "store_step c a"] tx_ok_step [OF Cons.prems(1,2), of c] Cons.prems(3)
    by (simp add: repo_run_def)
qed (simp add: repo_run_def)



lemma store_attach_member:
  "r \<in> set rs \<Longrightarrow> recordId r = i \<Longrightarrow> r\<lparr>receipt := Some rc\<rparr> \<in> set (store_attach i rc rs)"
  by (force simp: store_attach_def)

text \<open>
  Attaching a second receipt to a record replaces the first but leaves its hash in the
  transaction index, so a lookup of the replaced hash still answers with the record, whose
  receipt is another transaction.
\<close>
lemma reattach_stale_tx:
  assumes "mem_inv s" and "i \<in> set (ids (records s))" and "txHash old \<noteq> txHash new"
  shows "\<exists>r. mem_FindByTransaction (txHash old)
      (snd (mem_AttachReceipt i new (snd (mem_AttachReceipt i old s)))) = Some r
    \<and> receipt r = Some new \<and> \<not> has_tx (txHash old) r"
proof -
  let ?s1 = "s\<lparr> records := store_attach i old (records s),
                recordIdByTxHash := (recordIdByTxHash s)(txHash old \<mapsto> i) \<rparr>"
  let ?s2 = "?s1\<lparr> records := store_attach i new (records ?s1),
                  recordIdByTxHash := (recordIdByTxHash ?s1)(txHash new \<mapsto> i) \<rparr>"
  have inv: "mem_inv ?s1" "mem_inv ?s2" using assms(1) by (intro mem_inv_AttachReceipt | simp)+
  have run: "snd (mem_AttachReceipt i new (snd (mem_AttachReceipt i old s))) = ?s2"
    using mem_AttachReceipt_cases [OF assms(1), of i old] mem_AttachReceipt_cases [OF inv(1), of i new] assms(2)
    by simp
  from assms(2) obtain q where q: "q \<in> set (records s)" "recordId q = i" by (auto simp: ids_def)
  let ?r = "q\<lparr>receipt := Some old\<rparr>\<lparr>receipt := Some new\<rparr>"
  have "?r \<in> set (records ?s2)"
    using store_attach_member [OF store_attach_member [OF q, of old], of i new] q(2) by simp
  then obtain r where r: "r \<in> set (records ?s2)" "recordId r = i" "receipt r = Some new"
    using q(2) by fastforce
  then have "FindByIdLocked i ?s2 = Some r" using FindByIdLocked_stored [OF inv(2) r(1)] by simp
  moreover have "recordIdByTxHash ?s2 (txHash old) = Some i" using assms(3) by simp
  ultimately show ?thesis
    using r(3) assms(3) by (simp add: run mem_FindByTransaction_def has_tx_def)
qed

lemma reattach_stale_tx_witness:
  "\<exists>r. mem_FindByTransaction ''a''
      (snd (mem_AttachReceipt 1 \<lparr> txHash = ''b'', blockHeight = 2, submittedAtIso8601 = [] \<rparr>
        (snd (mem_AttachReceipt 1 \<lparr> txHash = ''a'', blockHeight = 1, submittedAtIso8601 = [] \<rparr>
          (snd (mem_Save default_packet mem_empty)))))) = Some r
    \<and> receipt r = Some \<lparr> txHash = ''b'', blockHeight = 2, submittedAtIso8601 = [] \<rparr>"
proof -
  obtain i s where sv: "mem_Save default_packet mem_empty = (i, s)" by fastforce
  then have i: "i = 1" by (simp add: mem_Save_def mem_empty_def Let_def)
  have "mem_inv s" "1 \<in> set (ids (records s))"
    using mem_inv_Save [OF mem_inv_empty _ sv] by (simp_all add: mem_room_def mem_empty_def i)
  from reattach_stale_tx [OF this, of "\<lparr> txHash = ''a'', blockHeight = 1, submittedAtIso8601 = [] \<rparr>"
      "\<lparr> txHash = ''b'', blockHeight = 2, submittedAtIso8601 = [] \<rparr>"]
  show ?thesis by (auto simp: sv)
qed

end
