(* ===== verification/Cpp_Regex.thy ===== *)
theory Cpp_Regex
  imports Prelude
begin

text \<open>
  The part of \<^verbatim>\<open>std::regex\<close> (ECMAScript grammar) that the sources use. Every pattern there
  is a sequence of pieces; a piece is a character class with a greedy repetition range, and a
  capture group is always exactly one piece. \<open>match_here\<close> is the backtracking matcher at one
  position (longest repetition first), \<open>regex_search\<close> is \<^verbatim>\<open>std::regex_search\<close>: the first
  position of the text where the pattern matches, with the captured substrings in order.
  The lemmas of this theory say when backtracking cannot change the result, so that a
  pattern is a left-to-right scan.
\<close>

datatype cclass =
    Lit char
  | LitNoCase char
  | OneOf string
  | NoneOf string
  | SpaceClass
  | DigitClass

fun class_has :: "cclass \<Rightarrow> char \<Rightarrow> bool" where
  "class_has (Lit a) c = (c = a)"
| "class_has (LitNoCase a) c = (to_lower c = to_lower a)"
| "class_has (OneOf s) c = (c \<in> set s)"
| "class_has (NoneOf s) c = (c \<notin> set s)"
| "class_has SpaceClass c = is_space c"
| "class_has DigitClass c = is_digit c"

text \<open>A piece: its class, the least and the greatest number of repetitions, and whether it is captured.\<close>

datatype piece = Piece cclass nat "nat option" bool

type_synonym pattern = "piece list"

definition class_run :: "cclass \<Rightarrow> string \<Rightarrow> nat" where
  "class_run cl s = length (takeWhile (class_has cl) s)"

fun match_here :: "pattern \<Rightarrow> string \<Rightarrow> string list option" where
  "match_here [] s = Some []"
| "match_here (Piece cl lo hi cap # ps) s =
     first_some
       (\<lambda>k. map_option (\<lambda>caps. if cap then take k s # caps else caps) (match_here ps (drop k s)))
       (rev [lo ..< Suc (case hi of None \<Rightarrow> class_run cl s | Some h \<Rightarrow> min h (class_run cl s))])"

fun regex_search :: "pattern \<Rightarrow> string \<Rightarrow> string list option" where
  "regex_search p [] = match_here p []"
| "regex_search p (c # cs) =
     (case match_here p (c # cs) of Some caps \<Rightarrow> Some caps | None \<Rightarrow> regex_search p cs)"

section \<open>Pattern constructors\<close>

definition re_lit :: "string \<Rightarrow> pattern" where
  "re_lit s = map (\<lambda>c. Piece (Lit c) 1 (Some 1) False) s"

definition re_lit_icase :: "string \<Rightarrow> pattern" where
  "re_lit_icase s = map (\<lambda>c. Piece (LitNoCase c) 1 (Some 1) False) s"

definition re_star :: "cclass \<Rightarrow> pattern" where
  "re_star cl = [Piece cl 0 None False]"

definition re_plus :: "cclass \<Rightarrow> pattern" where
  "re_plus cl = [Piece cl 1 None False]"

definition re_one :: "cclass \<Rightarrow> pattern" where
  "re_one cl = [Piece cl 1 (Some 1) False]"

definition cap_star :: "cclass \<Rightarrow> pattern" where
  "cap_star cl = [Piece cl 0 None True]"

definition cap_plus :: "cclass \<Rightarrow> pattern" where
  "cap_plus cl = [Piece cl 1 None True]"

definition cap_times :: "cclass \<Rightarrow> nat \<Rightarrow> pattern" where
  "cap_times cl n = [Piece cl n (Some n) True]"

lemmas re_defs = re_lit_def re_lit_icase_def re_star_def re_plus_def re_one_def
  cap_star_def cap_plus_def cap_times_def

section \<open>Matching as a scan\<close>

text \<open>A pattern that cannot start with a character of the class \<open>cl\<close> (nor match the empty text).\<close>

fun starts_outside :: "pattern \<Rightarrow> cclass \<Rightarrow> bool" where
  "starts_outside [] cl = False"
| "starts_outside (Piece cl' lo hi cap # ps) cl =
     ((\<forall>c. class_has cl c \<longrightarrow> \<not> class_has cl' c) \<and> (0 < lo \<or> starts_outside ps cl))"

lemma class_run_Cons: "class_run cl (c # cs) = (if class_has cl c then Suc (class_run cl cs) else 0)"
  by (simp add: class_run_def)

lemma class_run_Nil [simp]: "class_run cl [] = 0"
  by (simp add: class_run_def)

lemma class_run_le: "class_run cl s \<le> length s"
  by (simp add: class_run_def takeWhile_length_le)

lemma class_run_nth: "i < class_run cl s \<Longrightarrow> class_has cl (s ! i)"
  unfolding class_run_def by (metis nth_mem set_takeWhileD takeWhile_nth)

lemma match_here_outside:
  "starts_outside ps cl \<Longrightarrow> class_has cl c \<Longrightarrow> match_here ps (c # cs) = None"
proof (induction ps)
  case (Cons p ps)
  obtain cl' lo hi cap where p: "p = Piece cl' lo hi cap" by (cases p)
  with Cons.prems have "class_run cl' (c # cs) = 0" by (simp add: class_run_Cons)
  with Cons p show ?case by (cases hi) auto
qed simp

text \<open>
  The greedy repetition is the only one that can succeed when what follows cannot start inside
  the class: no backtracking.
\<close>

lemma match_here_greedy:
  assumes "starts_outside ps cl"
  shows "match_here (Piece cl lo None cap # ps) s =
    (if lo \<le> class_run cl s
     then map_option (\<lambda>caps. if cap then takeWhile (class_has cl) s # caps else caps)
            (match_here ps (dropWhile (class_has cl) s))
     else None)"
proof (cases "lo \<le> class_run cl s")
  case True
  let ?n = "class_run cl s"
  have fail: "match_here ps (drop k s) = None" if "k < ?n" for k
  proof -
    have "k < length s" using that class_run_le [of cl s] by simp
    then have "drop k s = s ! k # drop (Suc k) s" by (simp add: Cons_nth_drop_Suc)
    with match_here_outside [OF assms class_run_nth [OF that]] show ?thesis by simp
  qed
  have rest: "first_some
      (\<lambda>k. map_option (\<lambda>caps. if cap then take k s # caps else caps) (match_here ps (drop k s)))
      (rev [lo ..< ?n]) = None"
    by (rule first_some_None) (auto simp: fail)
  show ?thesis
    using True rest
    by (simp add: rev_upt_Cons class_run_def drop_takeWhile_dropWhile take_takeWhile_self
        split: option.splits)
qed simp

lemma match_here_last_greedy:
  "match_here [Piece cl lo None cap] s =
    (if lo \<le> class_run cl s then Some (if cap then [takeWhile (class_has cl) s] else []) else None)"
  by (simp add: rev_upt_Cons class_run_def take_takeWhile_self)

lemma match_here_one:
  "match_here (Piece cl (Suc 0) (Some (Suc 0)) False # ps) s =
    (case s of [] \<Rightarrow> None | c # cs \<Rightarrow> if class_has cl c then match_here ps cs else None)"
proof (cases s)
  case (Cons c cs)
  then show ?thesis
    by (cases "class_run cl cs") (auto simp: class_run_Cons split: option.splits)
qed simp

lemma match_here_lit:
  "match_here (re_lit w @ ps) s = (if prefix w s then match_here ps (drop (length w) s) else None)"
proof (induction w arbitrary: s)
  case (Cons c w)
  then show ?case
    by (cases s) (auto simp: re_lit_def match_here_one simp del: match_here.simps)
qed (simp add: re_lit_def)

lemma match_here_lit_Nil: "match_here (re_lit w) s = (if prefix w s then Some [] else None)"
  using match_here_lit [of w "[]" s] by simp

text \<open>The search: the first position that matches.\<close>

lemma regex_search_Some:
  "regex_search p s = Some caps \<longleftrightarrow>
   (\<exists>i \<le> length s. match_here p (drop i s) = Some caps \<and> (\<forall>j < i. match_here p (drop j s) = None))"
proof (induction s)
  case (Cons c cs)
  show ?case (is "?l \<longleftrightarrow> (\<exists>i \<le> _. ?P i)")
  proof (cases "match_here p (c # cs)")
    case None
    have "(\<exists>i \<le> length (c # cs). ?P i) \<longleftrightarrow> (\<exists>i \<le> length cs. ?P (Suc i))"
    proof
      assume "\<exists>i \<le> length (c # cs). ?P i"
      then obtain i where i: "i \<le> length (c # cs)" "?P i" by blast
      with None obtain k where "i = Suc k" by (cases i) auto
      with i show "\<exists>i \<le> length cs. ?P (Suc i)" by auto
    qed auto
    moreover have "?P (Suc i) \<longleftrightarrow> match_here p (drop i cs) = Some caps \<and>
        (\<forall>j < i. match_here p (drop j cs) = None)" for i
      using None by (auto simp: less_Suc_eq_0_disj)
    ultimately show ?thesis using None Cons.IH by simp
  next
    case (Some x)
    have "(\<exists>i \<le> length (c # cs). ?P i) \<longleftrightarrow> ?P 0"
    proof
      assume "\<exists>i \<le> length (c # cs). ?P i"
      then obtain i where i: "?P i" by blast
      with Some have "i = 0" by (cases i) (auto dest: spec [of _ 0])
      with i show "?P 0" by simp
    qed auto
    with Some show ?thesis by simp
  qed
qed auto

lemma regex_search_None:
  "regex_search p s = None \<longleftrightarrow> (\<forall>i \<le> length s. match_here p (drop i s) = None)"
proof (induction s)
  case (Cons c cs)
  have "(\<forall>i \<le> length (c # cs). match_here p (drop i (c # cs)) = None) \<longleftrightarrow>
        match_here p (c # cs) = None \<and> (\<forall>i \<le> length cs. match_here p (drop i cs) = None)"
    by (metis (no_types, lifting) Suc_le_mono drop0 drop_Suc_Cons le0 length_Cons not0_implies_Suc)
  with Cons.IH show ?case by (simp split: option.splits)
qed simp

lemma regex_search_skip [parse_simps]:
  assumes "\<And>j. j < length pre \<Longrightarrow> match_here p (drop j pre @ s) = None"
  shows "regex_search p (pre @ s) = regex_search p s"
  using assms
proof (induction pre)
  case (Cons c pre)
  have "match_here p ((c # pre) @ s) = None" using Cons.prems [of 0] by simp
  moreover have "regex_search p (pre @ s) = regex_search p s"
    using Cons.prems [of "Suc j" for j] by (intro Cons.IH) simp
  ultimately show ?case by simp
qed simp

lemma regex_search_here: "match_here p s = Some caps \<Longrightarrow> regex_search p s = Some caps"
  by (cases s) auto

end
