(* ===== verification/Json_Parser.thy ===== *)
theory Json_Parser
  imports Cpp_Regex Domain
begin

text \<open>
  \<^verbatim>\<open>src/transport/json_parser.cpp\<close>: the telemetry packet parser, which extracts each field
  with its own search over the whole payload, and the JSON escaping of outgoing strings.
  The keys given to the extractors are the literal names of \<open>ParseTelemetryPacketJson\<close>; none
  holds a character that is special in a regular expression, so a key is a literal pattern.
\<close>

section \<open>Field extraction\<close>

definition quoted :: "string \<Rightarrow> string" where
  "quoted key = ''\"'' @ key @ ''\"''"

text \<open>\<^verbatim>\<open>match[1]\<close> of a successful search.\<close>

definition group1 :: "string list option \<Rightarrow> string option" where
  "group1 m = (case m of Some (v # vs) \<Rightarrow> Some v | _ \<Rightarrow> None)"

definition string_value_pattern :: "string \<Rightarrow> pattern" where
  "string_value_pattern key =
     re_lit (quoted key) @ re_star SpaceClass @ re_lit '':'' @ re_star SpaceClass @
     re_lit ''\"'' @ cap_star (NoneOf ''\"'') @ re_lit ''\"''"

definition ExtractStringValue :: "string \<Rightarrow> string \<Rightarrow> string option" where
  "ExtractStringValue json key = group1 (regex_search (string_value_pattern key) json)"

definition unsigned_value_pattern :: "string \<Rightarrow> pattern" where
  "unsigned_value_pattern key =
     re_lit (quoted key) @ re_star SpaceClass @ re_lit '':'' @ re_star SpaceClass @ cap_plus DigitClass"

definition ExtractUnsignedValue :: "string \<Rightarrow> string \<Rightarrow> u64 option" where
  "ExtractUnsignedValue json key =
     (case group1 (regex_search (unsigned_value_pattern key) json) of
        None \<Rightarrow> None
      | Some ds \<Rightarrow> (case stoull ds 10 of Inr n \<Rightarrow> Some n | Inl _ \<Rightarrow> None))"

text \<open>
  The scan of \<open>ExtractObjectValue\<close> from the opening brace, with its \<^verbatim>\<open>depth\<close>,
  \<^verbatim>\<open>inString\<close> and \<^verbatim>\<open>escape\<close>: the number of characters up to and including the
  brace that closes the object.
\<close>

fun object_scan :: "string \<Rightarrow> int \<Rightarrow> bool \<Rightarrow> bool \<Rightarrow> nat option" where
  "object_scan [] depth inString escape = None"
| "object_scan (c # cs) depth inString escape =
     (if escape then map_option Suc (object_scan cs depth inString False)
      else if c = CHR 0x5C then map_option Suc (object_scan cs depth inString True)
      else if c = CHR 0x22 then map_option Suc (object_scan cs depth (\<not> inString) False)
      else if inString then map_option Suc (object_scan cs depth inString False)
      else if c = CHR ''{'' then map_option Suc (object_scan cs (depth + 1) inString False)
      else if c = CHR ''}'' then
        (if depth - 1 = 0 then Some 1
         else map_option Suc (object_scan cs (depth - 1) inString False))
      else map_option Suc (object_scan cs depth inString False))"

definition ExtractObjectValue :: "string \<Rightarrow> string \<Rightarrow> string option" where
  "ExtractObjectValue json key =
     (let keyToken = quoted key in
      case str_find keyToken json of
        None \<Rightarrow> None
      | Some keyPos \<Rightarrow>
          (case str_find_from '':'' json (keyPos + length keyToken) of
             None \<Rightarrow> None
           | Some colonPos \<Rightarrow>
               (case str_find_from ''{'' json (colonPos + 1) of
                  None \<Rightarrow> None
                | Some objectStart \<Rightarrow>
                    map_option (\<lambda>n. substr json objectStart n)
                      (object_scan (drop objectStart json) 0 False False))))"

section \<open>The packet parser\<close>

record parse_telemetry_result =
  ok :: bool
  parsedPacket :: telemetry_packet
  parseError :: string

definition parse_failure :: "string \<Rightarrow> parse_telemetry_result" where
  "parse_failure e = \<lparr> ok = False, parsedPacket = default_packet, parseError = e \<rparr>"

definition value_or :: "'a option \<Rightarrow> 'a \<Rightarrow> 'a" where
  "value_or x d = (case x of Some y \<Rightarrow> y | None \<Rightarrow> d)"

definition ParseTelemetryPacketJson :: "string \<Rightarrow> parse_telemetry_result" where
  "ParseTelemetryPacketJson payload =
     (case ExtractStringValue payload ''deviceId'' of
        None \<Rightarrow> parse_failure ''missing deviceId''
      | Some d \<Rightarrow>
     (case ExtractUnsignedValue payload ''timestamp'' of
        None \<Rightarrow> parse_failure ''missing timestamp''
      | Some t \<Rightarrow>
     (case ExtractObjectValue payload ''telemetry'' of
        None \<Rightarrow> parse_failure ''missing telemetry object''
      | Some j \<Rightarrow>
     (case ExtractStringValue payload ''hash'' of
        None \<Rightarrow> parse_failure ''missing hash''
      | Some h \<Rightarrow>
     (case ExtractStringValue payload ''signature'' of
        None \<Rightarrow> parse_failure ''missing signature''
      | Some s \<Rightarrow>
          \<lparr> ok = True,
            parsedPacket =
              \<lparr> deviceId = d, timestamp = t, telemetryJson = j, hashHex = h, signature = s,
                pubKeyId = value_or (ExtractStringValue payload ''pubKeyId'') ''default-pubkey'',
                transport = value_or (ExtractStringValue payload ''transport'') ''wifi'',
                batchCode = value_or (ExtractStringValue payload ''batchCode'') [] \<rparr>,
            parseError = [] \<rparr>)))))"

definition IsHex64 :: "string \<Rightarrow> bool" where
  "IsHex64 s \<longleftrightarrow> length s = 64 \<and> list_all is_xdigit s"

text \<open>One case label of the \<^verbatim>\<open>switch\<close> of \<open>JsonEscape\<close> each; 8, 12, 10, 13, 9 are the
  control characters b, f, n, r, t.\<close>

definition escape_char :: "char \<Rightarrow> string" where
  "escape_char c =
     (if c = CHR 0x22 then [CHR 0x5C, CHR 0x22]
      else if c = CHR 0x5C then [CHR 0x5C, CHR 0x5C]
      else if c = CHR 0x08 then [CHR 0x5C, CHR ''b'']
      else if c = CHR 0x0C then [CHR 0x5C, CHR ''f'']
      else if c = CHR 0x0A then [CHR 0x5C, CHR ''n'']
      else if c = CHR 0x0D then [CHR 0x5C, CHR ''r'']
      else if c = CHR 0x09 then [CHR 0x5C, CHR ''t'']
      else [c])"

definition JsonEscape :: "string \<Rightarrow> string" where
  "JsonEscape s = concat (map escape_char s)"

section \<open>The searches as scans\<close>

lemma class_has_funs [simp]:
  "class_has SpaceClass = is_space" "class_has DigitClass = is_digit"
  "class_has (NoneOf s) = (\<lambda>c. c \<notin> set s)" "class_has (Lit a) = (\<lambda>c. c = a)"
  by (auto simp: fun_eq_iff)

text \<open>What follows a key token: white space, a colon, white space; then the rest \<open>k\<close> of the pattern.\<close>

definition after_colon :: "string \<Rightarrow> string option" where
  "after_colon s =
     (case dropWhile is_space s of
        c # r \<Rightarrow> if c = CHR '':'' then Some (dropWhile is_space r) else None
      | [] \<Rightarrow> None)"

definition string_value_at :: "string \<Rightarrow> string \<Rightarrow> string option" where
  "string_value_at key s =
     (if prefix (quoted key) s then
        (case after_colon (drop (length (quoted key)) s) of
           Some (q # v) \<Rightarrow>
             if q = CHR 0x22 \<and> CHR 0x22 \<in> set v then Some (takeWhile (\<lambda>c. c \<noteq> CHR 0x22) v) else None
         | _ \<Rightarrow> None)
      else None)"

definition unsigned_value_at :: "string \<Rightarrow> string \<Rightarrow> string option" where
  "unsigned_value_at key s =
     (if prefix (quoted key) s then
        (case after_colon (drop (length (quoted key)) s) of
           Some v \<Rightarrow> if takeWhile is_digit v \<noteq> [] then Some (takeWhile is_digit v) else None
         | None \<Rightarrow> None)
      else None)"

fun first_at :: "(string \<Rightarrow> 'a option) \<Rightarrow> string \<Rightarrow> 'a option" where
  "first_at f [] = f []"
| "first_at f (c # cs) = (case f (c # cs) of Some v \<Rightarrow> Some v | None \<Rightarrow> first_at f cs)"

lemma match_after_colon:
  assumes "starts_outside ps SpaceClass"
  shows "match_here (re_star SpaceClass @ re_lit '':'' @ re_star SpaceClass @ ps) s =
     (case after_colon s of None \<Rightarrow> None | Some r \<Rightarrow> match_here ps r)"
proof -
  have out: "starts_outside (re_lit '':'' @ re_star SpaceClass @ ps) SpaceClass"
    by (auto simp: re_lit_def is_space_def)
  have colon: "match_here (re_lit '':'' @ re_star SpaceClass @ ps) t = (case t of
      c # r \<Rightarrow> if c = CHR '':'' then match_here (re_star SpaceClass @ ps) r else None | [] \<Rightarrow> None)" for t
    by (subst match_here_lit, cases t) auto
  have "match_here (re_star SpaceClass @ re_lit '':'' @ re_star SpaceClass @ ps) s =
    match_here (re_lit '':'' @ re_star SpaceClass @ ps) (dropWhile is_space s)"
    using match_here_greedy [OF out, of 0 False s]
    by (simp add: re_star_def option.map_ident del: match_here.simps)
  also have "\<dots> = (case dropWhile is_space s of
      c # r \<Rightarrow> if c = CHR '':'' then match_here (re_star SpaceClass @ ps) r else None | [] \<Rightarrow> None)"
    by (rule colon)
  also have "\<dots> = (case after_colon s of None \<Rightarrow> None | Some r \<Rightarrow> match_here ps r)"
    using match_here_greedy [OF assms, of 0 False]
    by (simp add: after_colon_def re_star_def option.map_ident del: match_here.simps dropWhile_eq_Nil_conv
        split: list.splits)
  finally show ?thesis .
qed

lemma prefix_dropWhile_neq: "prefix [c] (dropWhile (\<lambda>x. x \<noteq> c) v) \<longleftrightarrow> c \<in> set v"
  by (induction v) auto

lemma match_quoted_tail:
  "match_here (re_lit ''\"'' @ cap_star (NoneOf ''\"'') @ re_lit ''\"'') s =
     (case s of q # v \<Rightarrow>
        if q = CHR 0x22 \<and> CHR 0x22 \<in> set v then Some [takeWhile (\<lambda>c. c \<noteq> CHR 0x22) v] else None
      | [] \<Rightarrow> None)"
proof -
  have out: "starts_outside (re_lit ''\"'') (NoneOf ''\"'')"
    by (simp add: re_lit_def)
  have "match_here (cap_star (NoneOf ''\"'') @ re_lit ''\"'') v =
    (if CHR 0x22 \<in> set v then Some [takeWhile (\<lambda>c. c \<noteq> CHR 0x22) v] else None)" for v
    using match_here_greedy [OF out, of 0 True v]
    by (simp add: cap_star_def match_here_lit_Nil prefix_dropWhile_neq del: match_here.simps)
  then show ?thesis
    by (subst match_here_lit) (auto split: list.splits simp del: match_here.simps)
qed


lemma match_string_value:
  "group1 (match_here (string_value_pattern key) s) = string_value_at key s"
  "match_here (string_value_pattern key) s = None \<longleftrightarrow> string_value_at key s = None"
proof -
  have out: "starts_outside (re_lit ''\"'' @ cap_star (NoneOf ''\"'') @ re_lit ''\"'') SpaceClass"
    by (auto simp: re_lit_def is_space_def)
  have "match_here (string_value_pattern key) s = map_option (\<lambda>v. [v]) (string_value_at key s)"
    unfolding string_value_pattern_def
    by (subst match_here_lit, simp only: match_after_colon [OF out] match_quoted_tail)
       (auto simp: string_value_at_def split: option.splits list.splits)
  then show "group1 (match_here (string_value_pattern key) s) = string_value_at key s"
    and "match_here (string_value_pattern key) s = None \<longleftrightarrow> string_value_at key s = None"
    by (auto simp: group1_def split: option.splits)
qed

lemma match_unsigned_value:
  "group1 (match_here (unsigned_value_pattern key) s) = unsigned_value_at key s"
  "match_here (unsigned_value_pattern key) s = None \<longleftrightarrow> unsigned_value_at key s = None"
proof -
  have out: "starts_outside (cap_plus DigitClass) SpaceClass"
    by (auto simp: cap_plus_def dest: digit_not_space)
  have plus: "match_here (cap_plus DigitClass) r =
      (if takeWhile is_digit r \<noteq> [] then Some [takeWhile is_digit r] else None)" for r
    unfolding cap_plus_def match_here_last_greedy
    by (cases "takeWhile is_digit r") (auto simp: class_run_def)
  have "match_here (unsigned_value_pattern key) s = map_option (\<lambda>v. [v]) (unsigned_value_at key s)"
    unfolding unsigned_value_pattern_def
    by (subst match_here_lit, simp only: match_after_colon [OF out] plus)
       (auto simp: unsigned_value_at_def split: option.splits)
  then show "group1 (match_here (unsigned_value_pattern key) s) = unsigned_value_at key s"
    and "match_here (unsigned_value_pattern key) s = None \<longleftrightarrow> unsigned_value_at key s = None"
    by (auto simp: group1_def split: option.splits)
qed

lemma group1_search:
  assumes "\<And>s. group1 (match_here p s) = f s" and "\<And>s. match_here p s = None \<longleftrightarrow> f s = None"
  shows "group1 (regex_search p s) = first_at f s"
proof (induction s)
  case Nil
  then show ?case using assms(1) [of "[]"] by simp
next
  case (Cons c cs)
  show ?case
  proof (cases "match_here p (c # cs)")
    case None
    with Cons assms(2) [of "c # cs"] show ?thesis by (simp del: match_here.simps)
  next
    case (Some m)
    then have "f (c # cs) \<noteq> None" using assms(2) [of "c # cs"] by simp
    with Some assms(1) [of "c # cs"] show ?thesis by (auto simp del: match_here.simps)
  qed
qed

text \<open>C32: the regular-expression search for a string field, with its backtracking, computes the
  left-to-right scan: the first position holding the quoted key, white space, a colon, white
  space and a quoted value.\<close>

theorem ExtractStringValue_regex_scan:
  "ExtractStringValue json key = first_at (string_value_at key) json"
  unfolding ExtractStringValue_def by (intro group1_search match_string_value)

lemma ExtractStringValue_scan: "ExtractStringValue json key = first_at (string_value_at key) json"
  unfolding ExtractStringValue_def by (intro group1_search match_string_value)

lemma ExtractUnsignedValue_scan:
  "ExtractUnsignedValue json key =
     (case first_at (unsigned_value_at key) json of
        None \<Rightarrow> None
      | Some ds \<Rightarrow> (case stoull ds 10 of Inr n \<Rightarrow> Some n | Inl _ \<Rightarrow> None))"
  unfolding ExtractUnsignedValue_def
  by (subst group1_search [OF match_unsigned_value]) simp

section \<open>Searching a serialised request\<close>

text \<open>
  The layout of the requests the devices send (the payload of \<^verbatim>\<open>tests/test_json_parser.cpp\<close>
  and of the runbook): one line, the five required fields in order, then the optional ones.
\<close>

definition string_field :: "string \<Rightarrow> string \<Rightarrow> string" where
  "string_field name v = quoted name @ '':'' @ quoted v"

definition raw_field :: "string \<Rightarrow> string \<Rightarrow> string" where
  "raw_field name v = quoted name @ '':'' @ v"

definition optional_field :: "string \<Rightarrow> string option \<Rightarrow> string" where
  "optional_field name v = (case v of None \<Rightarrow> [] | Some x \<Rightarrow> '','' @ string_field name x)"

definition request_json ::
  "string \<Rightarrow> u64 \<Rightarrow> string \<Rightarrow> string \<Rightarrow> string \<Rightarrow> string option \<Rightarrow> string option \<Rightarrow> string option \<Rightarrow> string" where
  "request_json d t j h s pk tr bc =
     ''{'' @ string_field ''deviceId'' d @ '','' @ raw_field ''timestamp'' (u64_to_string t) @
     '','' @ raw_field ''telemetry'' j @ '','' @ string_field ''hash'' h @
     '','' @ string_field ''signature'' s @
     optional_field ''pubKeyId'' pk @ optional_field ''transport'' tr @
     optional_field ''batchCode'' bc @ ''}''"

abbreviation no_quote :: "string \<Rightarrow> bool" where
  "no_quote s \<equiv> CHR 0x22 \<notin> set s"

definition plain_key :: "string \<Rightarrow> bool" where
  "plain_key k \<longleftrightarrow> k \<noteq> [] \<and> hd k \<notin> set '',:}'' \<and> no_quote k \<and> CHR ''}'' \<notin> set k"

definition closes :: "string \<Rightarrow> bool" where
  "closes s \<longleftrightarrow> s \<noteq> [] \<and> hd s \<in> set '',}''"

text \<open>\<open>no_occ k pre s\<close>: no occurrence of the key token starts inside \<open>pre\<close>, when \<open>s\<close> follows it.\<close>

definition no_occ :: "string \<Rightarrow> string \<Rightarrow> string \<Rightarrow> bool" where
  "no_occ k pre s \<longleftrightarrow> (\<forall>j < length pre. \<not> prefix (quoted k) (drop j pre @ s))"

definition no_hit :: "(string \<Rightarrow> 'a option) \<Rightarrow> string \<Rightarrow> string \<Rightarrow> bool" where
  "no_hit f pre s \<longleftrightarrow> (\<forall>j < length pre. f (drop j pre @ s) = None)"

text \<open>What the two extractors have in common: a hit starts with the key token and a colon.\<close>

definition key_scanner :: "string \<Rightarrow> (string \<Rightarrow> 'a option) \<Rightarrow> bool" where
  "key_scanner k f \<longleftrightarrow>
     (\<forall>s. f s \<noteq> None \<longrightarrow> prefix (quoted k) s \<and> after_colon (drop (length (quoted k)) s) \<noteq> None)"

lemma key_scanner_string [simp]: "key_scanner k (string_value_at k)"
  by (auto simp: key_scanner_def string_value_at_def split: if_splits option.splits)

lemma key_scanner_unsigned [simp]: "key_scanner k (unsigned_value_at k)"
  by (auto simp: key_scanner_def unsigned_value_at_def split: if_splits option.splits)

lemma all_less_append:
  "(\<forall>j < length (a @ b). P (drop j (a @ b) @ s)) \<longleftrightarrow>
   (\<forall>j < length a. P (drop j a @ b @ s)) \<and> (\<forall>j < length b. P (drop j b @ s))" (is "?l \<longleftrightarrow> ?r")
proof
  assume l: ?l
  have "P (drop j a @ b @ s)" if "j < length a" for j
    using l [rule_format, of j] that by simp
  moreover have "P (drop j b @ s)" if "j < length b" for j
    using l [rule_format, of "length a + j"] that by simp
  ultimately show ?r by blast
next
  assume r: ?r
  show ?l
  proof (intro allI impI)
    fix j assume j: "j < length (a @ b)"
    show "P (drop j (a @ b) @ s)"
    proof (cases "j < length a")
      case True
      with r show ?thesis by simp
    next
      case False
      with r [THEN conjunct2, rule_format, of "j - length a"] j show ?thesis by simp
    qed
  qed
qed

lemma no_occ_append [simp]: "no_occ k (a @ b) s \<longleftrightarrow> no_occ k a (b @ s) \<and> no_occ k b s"
  unfolding no_occ_def by (rule all_less_append)

lemma no_hit_append [simp]: "no_hit f (a @ b) s \<longleftrightarrow> no_hit f a (b @ s) \<and> no_hit f b s"
  unfolding no_hit_def by (rule all_less_append)

lemma no_hit_of_no_occ: "key_scanner k f \<Longrightarrow> no_occ k pre s \<Longrightarrow> no_hit f pre s"
  by (auto simp: no_hit_def no_occ_def key_scanner_def)

lemma no_occ_no_quote [simp]: "no_quote pre \<Longrightarrow> no_occ k pre s"
  unfolding no_occ_def quoted_def
  by (metis Cons_nth_drop_Suc append_Cons nth_mem prefix_Cons prefix_code(2) append_is_Nil_conv list.inject list.distinct(1))

lemma no_occ_Nil [simp]: "no_occ k [] s"
  by (simp add: no_occ_def)

lemma no_occ_Cons [simp]: "c \<noteq> CHR 0x22 \<Longrightarrow> no_occ k (c # v) s \<longleftrightarrow> no_occ k v s"
  using no_occ_append [of k "[c]" v s] by simp

lemma no_hit_Nil [simp]: "no_hit f [] s"
  by (simp add: no_hit_def)

lemma no_hit_Cons: "key_scanner k f \<Longrightarrow> c \<noteq> CHR 0x22 \<Longrightarrow> no_hit f (c # v) s \<longleftrightarrow> no_hit f v s"
  using no_hit_append [of f "[c]" v s] no_hit_of_no_occ [of k f "[c]" "v @ s"] by simp

lemma quoted_prefix_iff:
  assumes "no_quote k" "no_quote v"
  shows "prefix (quoted k) (quoted v @ s) \<longleftrightarrow> v = k"
proof
  assume "prefix (quoted k) (quoted v @ s)"
  then obtain r where r: "k @ CHR 0x22 # r = v @ CHR 0x22 # s"
    by (auto simp: quoted_def prefix_def)
  have "takeWhile (\<lambda>c. c \<noteq> CHR 0x22) (k @ CHR 0x22 # r) = k"
    and "takeWhile (\<lambda>c. c \<noteq> CHR 0x22) (v @ CHR 0x22 # s) = v"
    using assms by (auto intro!: takeWhile_append_first)
  with r show "v = k" by simp
qed (simp add: quoted_def)


text \<open>Inside a quoted string, only its two quotes could start a key token.\<close>

lemma quoted_inner:
  assumes "no_quote v" "plain_key k" "s \<noteq> []" "hd s \<in> set '',:}''"
    and j: "0 < j" "j < length (quoted v)"
  shows "\<not> prefix (quoted k) (drop j (quoted v) @ s)"
proof (cases "j = Suc (length v)")
  case True
  then have "drop j (quoted v) @ s = CHR 0x22 # s" by (simp add: quoted_def)
  with assms show ?thesis
    by (cases k; cases s) (auto simp: quoted_def plain_key_def)
next
  case False
  with j have jv: "j - 1 < length v" by (auto simp: quoted_def)
  with j have "drop j (quoted v) @ s = v ! (j - 1) # drop j v @ CHR 0x22 # s"
    by (cases j) (auto simp: quoted_def Cons_nth_drop_Suc simp flip: append_Cons)
  moreover have "v ! (j - 1) \<noteq> CHR 0x22" using assms(1) jv nth_mem by metis
  ultimately show ?thesis by (auto simp: quoted_def)
qed

lemma no_occ_quoted:
  assumes "no_quote v" "plain_key k" "v \<noteq> k" "s \<noteq> []" "hd s \<in> set '',:}''"
  shows "no_occ k (quoted v) s"
  unfolding no_occ_def
proof (intro allI impI)
  fix j assume j: "j < length (quoted v)"
  show "\<not> prefix (quoted k) (drop j (quoted v) @ s)"
  proof (cases "j = 0")
    case True
    with assms show ?thesis by (simp add: quoted_prefix_iff plain_key_def)
  next
    case False
    with assms j show ?thesis by (intro quoted_inner) auto
  qed
qed

text \<open>A string value that happens to be the key's name is no hit: no colon follows it.\<close>

lemma no_hit_quoted:
  assumes f: "key_scanner k f" and v: "no_quote v" and k: "plain_key k" and s: "closes s"
  shows "no_hit f (quoted v) s"
  unfolding no_hit_def
proof (intro allI impI)
  fix j assume j: "j < length (quoted v)"
  have s': "s \<noteq> []" "hd s \<in> set '',:}''" using s by (auto simp: closes_def)
  have colon: "after_colon s = None"
    using s by (cases s) (auto simp: closes_def after_colon_def is_space_def)
  show "f (drop j (quoted v) @ s) = None"
  proof (cases "j = 0")
    case True
    have "prefix (quoted k) (quoted v @ s) \<Longrightarrow> after_colon (drop (length (quoted k)) (quoted v @ s)) = None"
      using v k colon by (simp add: quoted_prefix_iff plain_key_def)
    with f True show ?thesis by (auto simp: key_scanner_def)
  next
    case False
    with quoted_inner [OF v k s' _ j] f show ?thesis by (auto simp: key_scanner_def)
  qed
qed

lemma hd_quoted_append [simp]: "quoted v @ s \<noteq> []" "hd (quoted v @ s) = CHR 0x22"
  by (simp_all add: quoted_def)

lemma no_hit_string_field:
  assumes "key_scanner k f" "plain_key k" "no_quote name" "name \<noteq> k" "no_quote v" "closes s"
  shows "no_hit f (string_field name v) s"
  using assms unfolding string_field_def
  by (simp add: no_hit_Cons [OF assms(1)] no_hit_quoted no_hit_of_no_occ no_occ_quoted)

lemma no_occ_string_field:
  assumes "plain_key k" "no_quote name" "name \<noteq> k" "no_quote v" "v \<noteq> k" "closes s"
  shows "no_occ k (string_field name v) s"
  using assms unfolding string_field_def
  by (auto intro!: no_occ_quoted simp: closes_def)

lemma no_occ_raw_field:
  assumes "plain_key k" "no_quote name" "name \<noteq> k" "no_occ k v s"
  shows "no_occ k (raw_field name v) s"
  using assms unfolding raw_field_def by (auto intro!: no_occ_quoted)

text \<open>The telemetry object: no key token in it, and none reaches over its closing brace.\<close>

lemma no_occ_object:
  assumes "str_find (quoted k) t = None" "t \<noteq> []" "last t = CHR ''}''" "plain_key k"
  shows "no_occ k t s"
  unfolding no_occ_def
proof (intro allI impI notI)
  fix j assume j: "j < length t" and p: "prefix (quoted k) (drop j t @ s)"
  show False
  proof (cases "length (quoted k) \<le> length (drop j t)")
    case True
    with p have "prefix (quoted k) (drop j t)"
      by (metis prefix_length_prefix prefix_def)
    with assms(1) j show False by (auto simp: str_find_None)
  next
    case False
    with p have "prefix (drop j t) (quoted k)"
      by (metis nat_le_linear prefix_length_prefix prefixI)
    moreover from j assms(2,3) have "CHR ''}'' \<in> set (drop j t)"
      by (metis drop_eq_Nil last_drop last_in_set not_le)
    ultimately have "CHR ''}'' \<in> set (quoted k)" by (meson set_mono_prefix subsetD)
    with assms(4) show False by (simp add: quoted_def plain_key_def)
  qed
qed

lemma first_at_skip: "no_hit f pre s \<Longrightarrow> first_at f (pre @ s) = first_at f s"
proof (induction pre)
  case (Cons c pre)
  from Cons.prems have "f ((c # pre) @ s) = None" unfolding no_hit_def by (metis drop0 length_greater_0_conv list.distinct(1))
  moreover from Cons.prems have "no_hit f pre s"
    using no_hit_append [of f "[c]" pre s] by simp
  ultimately show ?case using Cons.IH by simp
qed simp

lemma first_at_hit: "f s = Some v \<Longrightarrow> first_at f s = Some v"
  by (cases s) auto

lemma first_at_None: "f [] = None \<Longrightarrow> no_hit f pre [] \<Longrightarrow> first_at f pre = None"
  using first_at_skip [of f pre "[]"] by simp

lemma string_value_at_field: "no_quote v \<Longrightarrow> string_value_at k (string_field k v @ s) = Some v"
  by (auto simp: string_value_at_def string_field_def after_colon_def quoted_def is_space_def
      intro!: takeWhile_append_first)

lemma unsigned_value_at_field:
  "s \<noteq> [] \<Longrightarrow> \<not> is_digit (hd s) \<Longrightarrow>
   unsigned_value_at k (raw_field k (u64_to_string n) @ s) = Some (u64_to_string n)"
proof -
  assume s: "s \<noteq> []" "\<not> is_digit (hd s)"
  have dig: "\<forall>c \<in> set (u64_to_string n). is_digit c" by (simp add: u64_to_string_digits)
  obtain c cs where n: "u64_to_string n = c # cs" by (cases "u64_to_string n") auto
  then have c: "is_digit c" using dig by simp
  then have ws: "dropWhile is_space (u64_to_string n @ s) = u64_to_string n @ s"
    using n by (simp add: digit_not_space)
  have "takeWhile is_digit (u64_to_string n @ s) = u64_to_string n"
    using dig s by (intro takeWhile_append_first) auto
  with ws show ?thesis
    by (simp add: unsigned_value_at_def raw_field_def after_colon_def is_space_def
        del: takeWhile_append2)
qed

section \<open>The object scan\<close>

definition json_object :: "string \<Rightarrow> bool" where
  "json_object t \<longleftrightarrow> t \<noteq> [] \<and> hd t = CHR ''{'' \<and> object_scan t 0 False False = Some (length t)"

lemma object_scan_append:
  "object_scan t d i e = Some n \<Longrightarrow> object_scan (t @ s) d i e = Some n"
proof (induction t arbitrary: d i e n)
  case (Cons c t)
  from Cons.prems show ?case
    by (auto split: if_splits dest!: Cons.IH)
qed simp

lemma object_scan_Some:
  "object_scan t d i e = Some n \<Longrightarrow> 0 < n \<and> n \<le> length t \<and> t ! (n - 1) = CHR ''}''"
proof (induction t arbitrary: d i e n)
  case (Cons c t)
  from Cons.prems show ?case
    by (auto split: if_splits dest!: Cons.IH simp: nth_Cons')
qed simp

lemma json_object_last: "json_object t \<Longrightarrow> last t = CHR ''}''"
  using object_scan_Some [of t 0 False False "length t"] by (simp add: json_object_def last_conv_nth)

lemma str_find_from_char:
  assumes "c \<notin> set gap"
  shows "str_find_from [c] (pre @ gap @ c # s) (length pre) = Some (length (pre @ gap))"
  using assms str_find_skip_hd [of "[c]" gap "c # s"] by (simp add: str_find_from_def)

lemma ExtractObjectValue_at:
  assumes find: "str_find (quoted k) (pre @ quoted k @ mid @ '':'' @ gap @ t @ rest) = Some (length pre)"
    and mid: "CHR '':'' \<notin> set mid" and gap: "CHR ''{'' \<notin> set gap" and t: "json_object t"
  shows "ExtractObjectValue (pre @ quoted k @ mid @ '':'' @ gap @ t @ rest) k = Some t"
proof -
  let ?json = "pre @ quoted k @ mid @ '':'' @ gap @ t @ rest"
  have colon: "str_find_from '':'' ?json (length pre + length (quoted k)) =
      Some (length (pre @ quoted k @ mid))"
    using str_find_from_char [OF mid, of "pre @ quoted k" "gap @ t @ rest"] by simp
  obtain t' where t': "t = CHR ''{'' # t'" using t by (cases t) (auto simp: json_object_def)
  have brace: "str_find_from ''{'' ?json (length (pre @ quoted k @ mid) + 1) =
      Some (length (pre @ quoted k @ mid @ '':'' @ gap))"
    using str_find_from_char [OF gap, of "pre @ quoted k @ mid @ '':''" "t' @ rest"] t' by simp
  have "object_scan (t @ rest) 0 False False = Some (length t)"
    using t by (intro object_scan_append) (simp add: json_object_def)
  with find colon brace show ?thesis
    by (simp add: ExtractObjectValue_def Let_def substr_def)
qed

lemma str_find_no_occ:
  "no_occ k pre (quoted k @ s) \<Longrightarrow> str_find (quoted k) (pre @ quoted k @ s) = Some (length pre)"
  using str_find_skip [of pre "quoted k" "quoted k @ s"] str_find_here [of "quoted k" s]
  by (simp add: no_occ_def quoted_def)

section \<open>Parsing a serialised request\<close>

text \<open>
  The requests of the round trip: no quote inside a string value, a telemetry text that is one
  braced object, and none of the keys searched after it as a quoted token inside it.
\<close>

definition late_keys :: "string list" where
  "late_keys = [''hash'', ''signature'', ''pubKeyId'', ''transport'', ''batchCode'']"

definition quote_free_opt :: "string option \<Rightarrow> bool" where
  "quote_free_opt v \<longleftrightarrow> (case v of None \<Rightarrow> True | Some x \<Rightarrow> no_quote x)"

definition clean_object :: "string \<Rightarrow> bool" where
  "clean_object j \<longleftrightarrow> json_object j \<and> (\<forall>k \<in> set late_keys. str_find (quoted k) j = None)"

lemma plain_keys [simp]:
  "plain_key ''deviceId''" "plain_key ''timestamp''" "plain_key ''telemetry''" "plain_key ''hash''"
  "plain_key ''signature''" "plain_key ''pubKeyId''" "plain_key ''transport''" "plain_key ''batchCode''"
  by (simp_all add: plain_key_def)

lemma no_quote_u64 [simp]: "no_quote (u64_to_string n)"
  by (auto dest: u64_to_string_digits simp: is_digit_def)

lemma no_hit_raw_field:
  assumes "key_scanner k f" "plain_key k" "no_quote name" "name \<noteq> k" "no_occ k v s"
  shows "no_hit f (raw_field name v) s"
  using assms by (intro no_hit_of_no_occ no_occ_raw_field)

lemma no_hit_optional_field:
  assumes "key_scanner k f" "plain_key k" "no_quote name" "name \<noteq> k" "quote_free_opt v" "closes s"
  shows "no_hit f (optional_field name v) s"
  using assms
  by (cases v) (auto simp: optional_field_def quote_free_opt_def no_hit_Cons no_hit_string_field)

lemma closes_simps [simp]:
  "closes (CHR '','' # s)" "closes (CHR ''}'' # s)"
  "closes s \<Longrightarrow> closes (optional_field name v @ s)"
  by (auto simp: closes_def optional_field_def split: option.splits)

lemma string_value_at_optional:
  "quote_free_opt (Some v) \<Longrightarrow> first_at (string_value_at k) (optional_field k (Some v) @ s) = Some v"
  by (simp add: optional_field_def quote_free_opt_def string_value_at_field first_at_hit
      string_value_at_def [of k "CHR '','' # _"]) (simp add: quoted_def)


text \<open>The part of the request before its telemetry object, and the part after it.\<close>

definition request_head :: "string \<Rightarrow> u64 \<Rightarrow> string" where
  "request_head d t = ''{'' @ string_field ''deviceId'' d @ '','' @
     raw_field ''timestamp'' (u64_to_string t) @ '',''"

definition request_tail ::
  "string \<Rightarrow> string \<Rightarrow> string option \<Rightarrow> string option \<Rightarrow> string option \<Rightarrow> string" where
  "request_tail h s pk tr bc = '','' @ string_field ''hash'' h @
     '','' @ string_field ''signature'' s @
     optional_field ''pubKeyId'' pk @ optional_field ''transport'' tr @
     optional_field ''batchCode'' bc @ ''}''"

lemma request_json_split:
  "request_json d t j h s pk tr bc =
     request_head d t @ raw_field ''telemetry'' j @ request_tail h s pk tr bc"
  by (simp add: request_json_def request_head_def request_tail_def)

lemma closes_tail [simp]: "closes (request_tail h s pk tr bc)"
  by (simp add: request_tail_def)

lemma no_hit_head:
  assumes "key_scanner k f" "plain_key k" "k \<noteq> ''deviceId''" "k \<noteq> ''timestamp''" "no_quote d"
  shows "no_hit f (request_head d t) s"
  using assms
  by (auto simp: request_head_def no_hit_Cons [OF assms(1)] intro!: no_hit_string_field no_hit_raw_field)

lemma late_key_past_object:
  assumes k: "k \<in> set late_keys" and f: "key_scanner k f"
    and d: "no_quote d" and j: "clean_object j"
  shows "first_at f (request_json d t j h s pk tr bc) = first_at f (request_tail h s pk tr bc)"
proof -
  have pk: "plain_key k" and neq: "k \<noteq> ''deviceId''" "k \<noteq> ''timestamp''" "k \<noteq> ''telemetry''"
    using k by (auto simp: late_keys_def)
  have occ: "no_occ k j (request_tail h s pk tr bc)"
    using j k pk by (intro no_occ_object) (auto simp: clean_object_def json_object_last json_object_def)
  have "no_hit f (raw_field ''telemetry'' j) (request_tail h s pk tr bc)"
    using f pk neq occ by (intro no_hit_raw_field) auto
  with no_hit_head [OF f pk neq(1,2) d] show ?thesis
    unfolding request_json_split by (simp add: first_at_skip)
qed

lemma extract_deviceId:
  "no_quote d \<Longrightarrow> ExtractStringValue (request_json d t j h s pk tr bc) ''deviceId'' = Some d"
proof -
  assume d: "no_quote d"
  have "first_at (string_value_at ''deviceId'') (''{'' @ string_field ''deviceId'' d @ r) = Some d" for r
    using first_at_skip [of "string_value_at ''deviceId''" "''{''" "string_field ''deviceId'' d @ r"] d
    by (simp add: no_hit_Cons [OF key_scanner_string] first_at_hit string_value_at_field)
  then show ?thesis by (simp add: ExtractStringValue_scan request_json_def)
qed

lemma extract_timestamp:
  "no_quote d \<Longrightarrow> ExtractUnsignedValue (request_json d t j h s pk tr bc) ''timestamp'' = Some t"
proof -
  assume d: "no_quote d"
  let ?f = "unsigned_value_at ''timestamp''"
  let ?pre = "''{'' @ string_field ''deviceId'' d @ '',''"
  have "no_hit ?f ?pre r" for r
    using d by (simp add: no_hit_Cons [OF key_scanner_unsigned] no_hit_string_field [OF key_scanner_unsigned])
  then have "first_at ?f (?pre @ raw_field ''timestamp'' (u64_to_string t) @ CHR '','' # r) =
      Some (u64_to_string t)" for r
    by (simp only: first_at_skip) (simp add: first_at_hit unsigned_value_at_field is_digit_def)
  then have "first_at ?f (request_json d t j h s pk tr bc) = Some (u64_to_string t)"
    by (simp add: request_json_def)
  then show ?thesis by (simp add: ExtractUnsignedValue_scan)
qed

lemma extract_telemetry:
  assumes d: "no_quote d" and j: "json_object j"
  shows "ExtractObjectValue (request_json d t j h s pk tr bc) ''telemetry'' = Some j"
proof (cases "d = ''telemetry''")
  case False
  let ?pre = "request_head d t" and ?rest = "request_tail h s pk tr bc"
  have "no_occ ''telemetry'' ?pre r" for r
    using d False unfolding request_head_def
    by (auto intro!: no_occ_string_field no_occ_raw_field)
  from str_find_no_occ [OF this] show ?thesis
    using ExtractObjectValue_at [of "''telemetry''" ?pre "[]" "[]" j ?rest] j
    by (simp add: request_json_split raw_field_def)
next
  case True
  let ?pre = "''{'' @ quoted ''deviceId'' @ '':''"
  let ?gap = "u64_to_string t @ '','' @ quoted ''telemetry'' @ '':''"
  have occ: "no_occ ''telemetry'' ?pre r" for r
    by (auto intro!: no_occ_quoted)
  have gap: "CHR ''{'' \<notin> set ?gap"
    by (auto simp: quoted_def is_digit_def dest: u64_to_string_digits)
  show ?thesis
    using ExtractObjectValue_at [of "''telemetry''" ?pre "'','' @ quoted ''timestamp''" ?gap j
        "request_tail h s pk tr bc", OF str_find_no_occ [OF occ] _ gap j] True
    by (simp add: request_json_split request_head_def raw_field_def string_field_def quoted_def)
qed


lemma first_late:
  assumes "no_hit (string_value_at k) pre (optional_field k v @ s)" "quote_free_opt v"
    and "v = None \<Longrightarrow> no_hit (string_value_at k) s []"
  shows "first_at (string_value_at k) (pre @ optional_field k v @ s) = v"
proof (cases v)
  case None
  have "string_value_at k [] = None" by (simp add: string_value_at_def quoted_def)
  with assms None show ?thesis
    by (simp add: first_at_skip first_at_None optional_field_def)
next
  case (Some x)
  with assms show ?thesis by (simp add: first_at_skip string_value_at_optional)
qed

lemma extract_late:
  fixes t :: u64
  assumes "no_quote d" "clean_object j" "no_quote h" "no_quote s"
    and "quote_free_opt pk" "quote_free_opt tr" "quote_free_opt bc"
  defines "r \<equiv> request_json d t j h s pk tr bc"
  shows "ExtractStringValue r ''hash'' = Some h"
    and "ExtractStringValue r ''signature'' = Some s"
    and "ExtractStringValue r ''pubKeyId'' = pk"
    and "ExtractStringValue r ''transport'' = tr"
    and "ExtractStringValue r ''batchCode'' = bc"
proof -
  note tail = late_key_past_object [OF _ key_scanner_string assms(1,2)]
  note hits = no_hit_Cons [OF key_scanner_string] no_hit_string_field [OF key_scanner_string]
    no_hit_optional_field [OF key_scanner_string]
  have req: "first_at (string_value_at k) (request_tail h s pk tr bc) =
      first_at (string_value_at k) (pre @ optional_field k v @ rest)"
    if "request_tail h s pk tr bc = pre @ optional_field k v @ rest" for k pre v rest
    using that by simp
  show "ExtractStringValue r ''hash'' = Some h"
    unfolding r_def ExtractStringValue_scan
    using first_late [of "''hash''" "[]" "Some h" "'','' @ string_field ''signature'' s @
      optional_field ''pubKeyId'' pk @ optional_field ''transport'' tr @
      optional_field ''batchCode'' bc @ ''}''"] assms
    by (simp add: tail late_keys_def request_tail_def optional_field_def quote_free_opt_def)
  show "ExtractStringValue r ''signature'' = Some s"
    unfolding r_def ExtractStringValue_scan
    using first_late [of "''signature''" "'','' @ string_field ''hash'' h" "Some s"
      "optional_field ''pubKeyId'' pk @ optional_field ''transport'' tr @
      optional_field ''batchCode'' bc @ ''}''"] assms
    by (simp add: tail late_keys_def request_tail_def optional_field_def quote_free_opt_def hits)
  let ?hs = "'','' @ string_field ''hash'' h @ '','' @ string_field ''signature'' s"
  show "ExtractStringValue r ''pubKeyId'' = pk"
    unfolding r_def ExtractStringValue_scan
    using first_late [of "''pubKeyId''" ?hs pk
      "optional_field ''transport'' tr @ optional_field ''batchCode'' bc @ ''}''"] assms
    by (simp add: tail late_keys_def request_tail_def hits)
  show "ExtractStringValue r ''transport'' = tr"
    unfolding r_def ExtractStringValue_scan
    using first_late [of "''transport''" "?hs @ optional_field ''pubKeyId'' pk" tr
      "optional_field ''batchCode'' bc @ ''}''"] assms
    by (simp add: tail late_keys_def request_tail_def hits)
  show "ExtractStringValue r ''batchCode'' = bc"
    unfolding r_def ExtractStringValue_scan
    using first_late [of "''batchCode''" "?hs @ optional_field ''pubKeyId'' pk @
      optional_field ''transport'' tr" bc "''}''"] assms
    by (simp add: tail late_keys_def request_tail_def hits)
qed

lemma parse_request:
  assumes "no_quote d" "clean_object j" "no_quote h" "no_quote s"
    and "quote_free_opt pk" "quote_free_opt tr" "quote_free_opt bc"
  shows "ParseTelemetryPacketJson (request_json d t j h s pk tr bc) =
    \<lparr> ok = True,
      parsedPacket = \<lparr> deviceId = d, timestamp = t, telemetryJson = j, hashHex = h, signature = s,
        pubKeyId = value_or pk ''default-pubkey'', transport = value_or tr ''wifi'',
        batchCode = value_or bc [] \<rparr>,
      parseError = [] \<rparr>"
  using assms
  by (simp add: ParseTelemetryPacketJson_def extract_deviceId extract_timestamp extract_telemetry
      extract_late clean_object_def)



section \<open>The extracted object is brace-balanced\<close>

text \<open>
  An independent reading of the text: \<open>outside\<close> drops string literals and escapes, and
  \<open>brace_depth\<close> counts the braces that remain.
\<close>

fun outside :: "bool \<Rightarrow> bool \<Rightarrow> string \<Rightarrow> string" where
  "outside inString escape [] = []"
| "outside inString escape (c # cs) =
     (if escape then outside inString False cs
      else if c = CHR 0x5C then outside inString True cs
      else if c = CHR 0x22 then outside (\<not> inString) False cs
      else if inString then outside inString False cs
      else c # outside inString False cs)"

definition net_braces :: "string \<Rightarrow> int" where
  "net_braces s = int (count_list s (CHR ''{'')) - int (count_list s (CHR ''}''))"

definition brace_depth :: "string \<Rightarrow> int" where
  "brace_depth s = net_braces (outside False False s)"

lemma net_braces_simps [simp]:
  "net_braces [] = 0"
  "net_braces (c # s) = (if c = CHR ''{'' then 1 else if c = CHR ''}'' then -1 else 0) + net_braces s"
  by (auto simp: net_braces_def)

lemma all_less_Suc_iff: "(\<forall>m < Suc n. P m) \<longleftrightarrow> P 0 \<and> (\<forall>m < n. P (Suc m))"
  by (auto simp: less_Suc_eq_0_disj)

lemma object_scan_balance:
  "object_scan s d i e = Some n \<Longrightarrow> 0 < d \<Longrightarrow>
     d + net_braces (outside i e (take n s)) = 0 \<and>
     (\<forall>m < n. 0 < d + net_braces (outside i e (take m s)))"
proof (induction s arbitrary: d i e n)
  case (Cons c s)
  have step: "d + net_braces (outside i e (take (Suc k) (c # s))) = 0 \<and>
      (\<forall>m < Suc k. 0 < d + net_braces (outside i e (take m (c # s))))"
    if "object_scan s d' i' e' = Some k" "0 < d'"
      and "\<And>r. d + net_braces (outside i e (c # r)) = d' + net_braces (outside i' e' r)" for d' i' e' k
    using Cons.IH [OF that(1,2)] that(3) Cons.prems(2) by (simp add: all_less_Suc_iff)
  show ?case
  proof (cases "\<not> e \<and> \<not> i \<and> c = CHR ''}'' \<and> d = 1")
    case True
    with Cons.prems show ?thesis by auto
  next
    case False
    with Cons.prems obtain d' i' e' k where k: "n = Suc k" "object_scan s d' i' e' = Some k" "0 < d'"
      and r: "\<And>r. d + net_braces (outside i e (c # r)) = d' + net_braces (outside i' e' r)"
      by (auto split: if_splits)
    from step [OF k(2,3) r] k(1) show ?thesis by simp
  qed
qed simp


lemma object_scan_take:
  "object_scan s d i e = Some n \<Longrightarrow> object_scan (take n s) d i e = Some n"
proof (induction s arbitrary: d i e n)
  case (Cons c s)
  from Cons.prems show ?case by (auto split: if_splits dest!: Cons.IH)
qed simp

lemma str_find_from_Some_char:
  assumes "str_find_from [c] s i = Some k"
  shows "k < length s \<and> s ! k = c"
proof -
  from assms obtain m where m: "str_find [c] (drop i s) = Some m" "k = i + m" "i \<le> length s"
    by (auto simp: str_find_from_def split: if_splits)
  have le: "i + m < length s" using str_find_Some [OF m(1)] m(3) by auto
  then have "drop (i + m) s = s ! (i + m) # drop (Suc (i + m)) s" by (simp add: Cons_nth_drop_Suc)
  with str_find_Some [OF m(1)] m(2) le show ?thesis by (auto simp: add.commute)
qed

lemma ExtractObjectValue_json_object:
  assumes "ExtractObjectValue json k = Some v"
  shows "json_object v \<and> (\<exists>pre post. json = pre @ v @ post)"
proof -
  from assms obtain i j o1 n where o1: "str_find_from ''{'' json (Suc j) = Some o1"
    and n: "object_scan (drop o1 json) 0 False False = Some n" and v: "v = take n (drop o1 json)"
    by (auto simp: ExtractObjectValue_def Let_def substr_def split: option.splits)
  from str_find_from_Some_char [OF o1] have o2: "o1 < length json" "json ! o1 = CHR ''{''" by auto
  have len: "0 < n" "n \<le> length (drop o1 json)" using object_scan_Some [OF n] by auto
  have "hd v = CHR ''{''" "v \<noteq> []" using o2 len v by (auto simp: hd_drop_conv_nth)
  moreover have "object_scan v 0 False False = Some (length v)"
    using object_scan_take [OF n] len v by simp
  moreover have "json = take o1 json @ v @ drop (o1 + n) json"
    using v by (metis add.commute append_take_drop_id drop_drop)
  ultimately show ?thesis unfolding json_object_def by blast
qed

lemma json_object_balance:
  assumes "json_object v"
  shows "brace_depth v = 0 \<and> (\<forall>u. prefix u v \<and> u \<noteq> [] \<and> u \<noteq> v \<longrightarrow> 0 < brace_depth u)"
proof -
  obtain w where w: "v = CHR ''{'' # w" using assms by (cases v) (auto simp: json_object_def)
  with assms have scan: "object_scan w 1 False False = Some (length w)" by (auto simp: json_object_def)
  note bal = object_scan_balance [OF scan]
  have "brace_depth v = 0" using bal w by (simp add: brace_depth_def)
  moreover have "0 < brace_depth u" if u: "prefix u v" "u \<noteq> []" "u \<noteq> v" for u
  proof -
    obtain u' where u': "u = CHR ''{'' # u'" "prefix u' w" using u w by (cases u) auto
    then have "u' = take (length u') w" "length u' \<le> length w"
      using prefix_length_le by (auto simp: prefix_def)
    moreover have "length u' \<noteq> length w" using u u' w calculation by auto
    ultimately show ?thesis using bal u' by (simp add: brace_depth_def) (metis le_neq_implies_less)
  qed
  ultimately show ?thesis by blast
qed

text \<open>C33: whatever object the extractor returns is a contiguous part of the payload, starts and ends with its braces, is balanced outside string literals, and no shorter nonempty prefix of it is balanced.\<close>

theorem ExtractObjectValue_balanced:
  assumes "ExtractObjectValue json k = Some v"
  shows "(\<exists>pre post. json = pre @ v @ post) \<and> hd v = CHR ''{'' \<and> last v = CHR ''}'' \<and>
    brace_depth v = 0 \<and> (\<forall>u. prefix u v \<and> u \<noteq> [] \<and> u \<noteq> v \<longrightarrow> 0 < brace_depth u)"
proof -
  from ExtractObjectValue_json_object [OF assms] have v: "json_object v"
    and "\<exists>pre post. json = pre @ v @ post" by auto
  moreover have "hd v = CHR ''{''" using v by (simp add: json_object_def)
  ultimately show ?thesis using json_object_last [OF v] json_object_balance [OF v] by blast
qed

theorem ExtractObjectValue_balanced_witness:
  "brace_depth ''{\"}\":{}}'' = 0"
proof -
  have "ExtractObjectValue ''{\"k\": {\"}\":{}}, {}}'' ''k'' = Some ''{\"}\":{}}''"
    by (simp add: ExtractObjectValue_def quoted_def str_find_from_def substr_def Let_def)
  from ExtractObjectValue_balanced [OF this] show ?thesis by blast
qed

section \<open>Reading back escaped strings\<close>

text \<open>
  A reader of JSON string contents: it decodes up to the first quote that is not escaped and
  returns what follows it.
\<close>

fun unescape_char :: "char \<Rightarrow> char" where
  "unescape_char c =
     (if c = CHR ''b'' then CHR 0x08 else if c = CHR ''f'' then CHR 0x0C
      else if c = CHR ''n'' then CHR 0x0A else if c = CHR ''r'' then CHR 0x0D
      else if c = CHR ''t'' then CHR 0x09 else c)"

fun read_json_string :: "string \<Rightarrow> (string \<times> string) option" where
  "read_json_string [] = None"
| "read_json_string (c # cs) =
     (if c = CHR 0x22 then Some ([], cs)
      else if c = CHR 0x5C then
        (case cs of [] \<Rightarrow> None
         | e # r \<Rightarrow> map_option (\<lambda>(s, rest). (unescape_char e # s, rest)) (read_json_string r))
      else map_option (\<lambda>(s, rest). (c # s, rest)) (read_json_string cs))"

lemma read_JsonEscape:
  "read_json_string (JsonEscape s @ ''\"'' @ rest) = Some (s, rest)"
proof (induction s)
  case (Cons c s)
  then show ?case by (simp add: JsonEscape_def escape_char_def)
qed (simp add: JsonEscape_def)

text \<open>C34: escaping is safe for embedding: read back as the contents of a JSON string, the escaped text gives exactly the original and stops exactly at the closing quote, whatever follows.\<close>

theorem JsonEscape_roundtrip:
  "read_json_string (JsonEscape s @ ''\"'' @ rest) = Some (s, rest)"
  by (rule read_JsonEscape)

lemma JsonEscape_inject: "JsonEscape s = JsonEscape t \<longleftrightarrow> s = t"
  by (metis read_JsonEscape option.inject prod.inject)

lemma escape_char_control:
  assumes "code c < 32"
  shows "c \<in> set (escape_char x) \<longleftrightarrow> x = c \<and> c \<notin> {CHR 0x08, CHR 0x09, CHR 0x0A, CHR 0x0C, CHR 0x0D}"
proof -
  have "c \<noteq> CHR 0x22" "c \<noteq> CHR 0x5C" "c \<noteq> CHR ''b''" "c \<noteq> CHR ''f''" "c \<noteq> CHR ''n''" "c \<noteq> CHR ''r''" "c \<noteq> CHR ''t''"
    using assms by auto
  then show ?thesis unfolding escape_char_def by simp blast
qed

text \<open>Of the control characters, the escaping replaces only backspace, tab, newline, form feed and carriage return; every other one stays in the output as it is.\<close>

lemma JsonEscape_control:
  assumes "code c < 32"
  shows "c \<in> set (JsonEscape s) \<longleftrightarrow> c \<in> set s \<and> c \<notin> {CHR 0x08, CHR 0x09, CHR 0x0A, CHR 0x0C, CHR 0x0D}"
  using escape_char_control [OF assms] by (simp add: JsonEscape_def)

lemma JsonEscape_control_witness: "CHR 0x01 \<in> set (JsonEscape [CHR 0x01])"
  using JsonEscape_control [of "CHR 0x01" "[CHR 0x01]"] by simp

section \<open>Where the parser departs from the documented format\<close>

text \<open>A hash key inside the telemetry object shadows the packet's own hash field, because each field is searched over the whole payload.\<close>

lemma nested_hash_shadows:
  assumes "no_quote d" "no_quote x"
  shows "ExtractStringValue
    (request_json d t (''{'' @ string_field ''hash'' x @ ''}'') h s pk tr bc) ''hash'' = Some x"
proof -
  let ?f = "string_value_at ''hash''" and ?rest = "''}'' @ request_tail h s pk tr bc"
  have "no_hit ?f (request_head d t) r" for r
    using assms by (simp add: no_hit_head [OF key_scanner_string])
  moreover have "no_hit ?f (quoted ''telemetry'' @ '':{'') (string_field ''hash'' x @ r)" for r
    by (simp add: no_hit_Cons [OF key_scanner_string] no_hit_of_no_occ [OF key_scanner_string] no_occ_quoted)
  ultimately have "first_at ?f (request_head d t @ (quoted ''telemetry'' @ '':{'') @ string_field ''hash'' x @ ?rest) = Some x"
    using assms by (simp only: first_at_skip) (simp add: first_at_hit string_value_at_field)
  then show ?thesis
    by (simp add: ExtractStringValue_scan request_json_split raw_field_def)
qed

lemma nested_hash_shadows_witness:
  "ExtractStringValue (request_json ''n1'' 7 (''{'' @ string_field ''hash'' ''x'' @ ''}'') ''ab'' ''cd'' None None None)
     ''hash'' = Some ''x''"
  by (rule nested_hash_shadows) simp_all

text \<open>A telemetry value that is not an object does not make the extraction fail: the next object of the payload is taken for it.\<close>

lemma non_object_telemetry_borrows:
  assumes "no_quote d" "d \<noteq> ''telemetry''" "CHR ''{'' \<notin> set mid" "json_object j"
  shows "ExtractObjectValue
    (request_head d t @ raw_field ''telemetry'' (mid @ j) @ rest) ''telemetry'' = Some j"
proof -
  have "no_occ ''telemetry'' (request_head d t) r" for r
    using assms unfolding request_head_def by (auto intro!: no_occ_string_field no_occ_raw_field)
  from str_find_no_occ [OF this] show ?thesis
    using ExtractObjectValue_at [of "''telemetry''" "request_head d t" "[]" mid j rest] assms
    by (simp add: raw_field_def)
qed

lemma non_object_telemetry_borrows_witness:
  "ExtractObjectValue (request_head ''n1'' 7 @ raw_field ''telemetry'' (''5,\"x\":'' @ ''{}'') @ ''}'') ''telemetry'' = Some ''{}''"
  by (rule non_object_telemetry_borrows) (simp_all add: json_object_def)

lemma first_at_SomeD: "first_at f s = Some v \<Longrightarrow> \<exists>r. f r = Some v"
  by (induction s) (auto split: option.splits)

lemma string_value_at_no_quote: "string_value_at key r = Some v \<Longrightarrow> no_quote v"
  by (auto simp: string_value_at_def dest: set_takeWhileD split: if_splits option.splits list.splits)

end
