(* ===== verification/Hash_Utils.thy ===== *)
theory Hash_Utils
  imports Json_Parser
begin

text \<open>
  \<^verbatim>\<open>src/utils/hash_utils.cpp\<close>: the hexadecimal SHA-256 of a text and the current UTC time
  as text. The message digest of OpenSSL and the implementation's \<^verbatim>\<open>std::hash\<close> are
  parameters, one for each of the two builds (\<^verbatim>\<open>AGRI_HASH_OPENSSL_ENABLED\<close> 1 and 0); the clock
  is a parameter too, as the seconds of \<^verbatim>\<open>std::time_t\<close>.
\<close>

section \<open>Hexadecimal text\<close>

definition hex_alphabet :: string where
  "hex_alphabet = ''0123456789abcdef''"

definition hex_char :: "nat \<Rightarrow> char" where
  "hex_char n = hex_alphabet ! n"

definition HexEncode :: "u8 list \<Rightarrow> string" where
  "HexEncode bytes =
     concat (map (\<lambda>v. [hex_char (unat (drop_bit 4 v AND 0x0F)), hex_char (unat (v AND 0x0F))]) bytes)"

text \<open>\<^verbatim>\<open>std::hex\<close> output of an unsigned integer, and \<^verbatim>\<open>setw\<close> with \<^verbatim>\<open>setfill('0')\<close>.\<close>

function hex_digits :: "int \<Rightarrow> string" where
  "hex_digits n = (if n < 16 then [hex_char (nat n)] else hex_digits (n div 16) @ [hex_char (nat (n mod 16))])"
  by pat_completeness auto
termination
  by (relation "measure nat") auto

declare hex_digits.simps [simp del]

definition zero_pad :: "nat \<Rightarrow> string \<Rightarrow> string" where
  "zero_pad w s = replicate (w - length s) (CHR ''0'') @ s"

definition hex16 :: "u64 \<Rightarrow> string" where
  "hex16 w = zero_pad 16 (hex_digits (uint w))"

section \<open>The hash\<close>

text \<open>
  The calls of the OpenSSL digest interface that \<open>Sha256Hex\<close> makes on one text: whether
  \<^verbatim>\<open>EVP_MD_CTX_new\<close> gives a context, the result codes, and the bytes written by the
  final call.
\<close>

record evp_digest =
  md_ctx_new :: bool
  digest_init :: int
  digest_update :: "string \<Rightarrow> int"
  digest_final :: "string \<Rightarrow> int \<times> u8 list"

datatype hash_build = OpenSslHash evp_digest | StdHash "string \<Rightarrow> u64"

definition zero_hash :: string where
  "zero_hash = replicate 64 (CHR ''0'')"

fun Sha256Hex :: "hash_build \<Rightarrow> string \<Rightarrow> string" where
  "Sha256Hex (OpenSslHash evp) input =
     (if \<not> md_ctx_new evp then zero_hash
      else
        (let initOk = digest_init evp; updateOk = digest_update evp input;
             (finalOk, digest) = digest_final evp input
         in if initOk \<noteq> 1 \<or> updateOk \<noteq> 1 \<or> finalOk \<noteq> 1 then zero_hash else HexEncode digest))"
| "Sha256Hex (StdHash hasher) input =
     hex16 (hasher (input @ ''|0'')) @ hex16 (hasher (input @ ''|1'')) @
     hex16 (hasher (input @ ''|2'')) @ hex16 (hasher (input @ ''|3''))"

text \<open>The documented length of a SHA-256 digest.\<close>

fun sha256_sized :: "hash_build \<Rightarrow> bool" where
  "sha256_sized (OpenSslHash evp) = (\<forall>x d. digest_final evp x = (1, d) \<longrightarrow> length d = 32)"
| "sha256_sized (StdHash hasher) = True"

section \<open>Every hash is 64 lower-case hexadecimal characters\<close>

definition lower_hex :: "char \<Rightarrow> bool" where
  "lower_hex c \<longleftrightarrow> c \<in> set hex_alphabet"

lemma all_nibbles:
  assumes "list_all P [0 ..< 16]" "n < 16"
  shows "P n"
  using assms by (simp add: list_all_iff)

lemma lower_hex_hex_char [simp]: "n < 16 \<Longrightarrow> lower_hex (hex_char n)"
  by (simp add: lower_hex_def hex_char_def hex_alphabet_def del: set_simps)

lemma lower_hex_xdigit: "lower_hex c \<Longrightarrow> is_xdigit c \<and> to_lower c = c"
  by (auto simp: lower_hex_def hex_alphabet_def is_xdigit_def is_digit_def to_lower_def)

lemma nibble_less [simp]: "unat ((v :: u8) AND 0xF) < 16"
proof -
  have "unat (v AND 0xF) \<le> unat (0xF :: u8)"
    by (rule word_and_le1 [THEN word_le_nat_alt [THEN iffD1]])
  then show ?thesis by simp
qed

lemma HexEncode_lower_hex: "list_all lower_hex (HexEncode bs)"
  by (induction bs) (simp_all add: HexEncode_def list_all_iff)

lemma length_HexEncode [simp]: "length (HexEncode bs) = 2 * length bs"
  by (induction bs) (simp_all add: HexEncode_def)

lemma hex_digits_lower_hex: "0 \<le> n \<Longrightarrow> list_all lower_hex (hex_digits n)"
proof (induction n rule: hex_digits.induct)
  case (1 n)
  then show ?case by (subst hex_digits.simps) (auto simp: nat_less_iff)
qed

lemma length_hex_digits: "n < 16 ^ Suc k \<Longrightarrow> length (hex_digits n) \<le> Suc k"
proof (induction k arbitrary: n)
  case 0
  then show ?case by (subst hex_digits.simps) simp
next
  case (Suc k)
  show ?case
  proof (cases "n < 16")
    case True
    then show ?thesis by (subst hex_digits.simps) simp
  next
    case False
    from Suc.prems have "n div 16 < 16 ^ Suc k" by simp
    from Suc.IH [OF this] False show ?thesis by (subst hex_digits.simps) simp
  qed
qed

lemma length_hex16 [simp]: "length (hex16 w) = 16"
proof -
  have "uint w < 16 ^ Suc 15" using unsigned_less [of w, where ?'a = int] by simp
  from length_hex_digits [OF this] show ?thesis by (simp add: hex16_def zero_pad_def)
qed

lemma hex16_lower_hex: "list_all lower_hex (hex16 w)"
  by (simp add: hex16_def zero_pad_def hex_digits_lower_hex list_all_iff [of _ "replicate _ _"])
     (simp add: lower_hex_def hex_alphabet_def)

lemma zero_hash_lower_hex: "list_all lower_hex zero_hash"
  by (simp add: zero_hash_def list_all_iff lower_hex_def hex_alphabet_def)

lemma length_Sha256Hex: "sha256_sized b \<Longrightarrow> length (Sha256Hex b x) = 64"
  by (cases b) (auto simp: zero_hash_def split: prod.splits)

lemma Sha256Hex_lower_hex: "list_all lower_hex (Sha256Hex b x)"
  by (cases b) (auto simp: zero_hash_lower_hex HexEncode_lower_hex hex16_lower_hex split: prod.splits)

lemma IsHex64_Sha256Hex: "sha256_sized b \<Longrightarrow> IsHex64 (Sha256Hex b x)"
  using Sha256Hex_lower_hex [of b x] length_Sha256Hex [of b x]
  by (auto simp: IsHex64_def list_all_iff dest: lower_hex_xdigit)

lemma lower_hex_to_lower: "list_all lower_hex s \<Longrightarrow> map to_lower s = s"
  by (rule map_idI) (auto simp: list_all_iff dest: lower_hex_xdigit)

text \<open>In both builds the hash is 64 characters long and all of them are lower-case hexadecimal
  digits, so it passes the service's own format check and is unchanged by lower-casing.\<close>

lemma Sha256Hex_hex64:
  assumes "sha256_sized b"
  shows "IsHex64 (Sha256Hex b x) \<and> map to_lower (Sha256Hex b x) = Sha256Hex b x"
  using IsHex64_Sha256Hex [OF assms] lower_hex_to_lower [OF Sha256Hex_lower_hex] by blast

lemma Sha256Hex_hex64_witness: "IsHex64 (Sha256Hex (StdHash (\<lambda>s. of_nat (length s))) ''abc'')"
  using Sha256Hex_hex64 [of "StdHash (\<lambda>s. of_nat (length s))" "''abc''"] by simp

section \<open>The current time as text\<close>

text \<open>
  \<^verbatim>\<open>gmtime_r\<close> by the calendar: whole days since 1970-01-01 are counted off year by year and
  month by month. The fields are the ones \<^verbatim>\<open>put_time\<close> prints.
\<close>

record tm =
  tm_year :: int
  tm_mon :: nat
  tm_mday :: int
  tm_hour :: int
  tm_min :: int
  tm_sec :: int

definition leap_year :: "int \<Rightarrow> bool" where
  "leap_year y \<longleftrightarrow> y mod 4 = 0 \<and> (y mod 100 \<noteq> 0 \<or> y mod 400 = 0)"

definition year_days :: "int \<Rightarrow> int" where
  "year_days y = (if leap_year y then 366 else 365)"

definition month_days :: "int \<Rightarrow> int list" where
  "month_days y = [31, if leap_year y then 29 else 28, 31, 30, 31, 30, 31, 31, 30, 31, 30, 31]"

function split_year :: "int \<Rightarrow> int \<Rightarrow> int \<times> int" where
  "split_year y d =
     (if d < 0 then split_year (y - 1) (d + year_days (y - 1))
      else if d < year_days y then (y, d)
      else split_year (y + 1) (d - year_days y))"
  by pat_completeness auto
termination
  by (relation "measures [\<lambda>(y, d). if d < 0 then 1 else 0, \<lambda>(y, d). nat \<bar>d\<bar>]")
     (auto simp: year_days_def split: if_splits)

declare split_year.simps [simp del]

fun split_month :: "int list \<Rightarrow> int \<Rightarrow> nat \<times> int" where
  "split_month [] d = (0, d)"
| "split_month (m # ms) d = (if d < m then (0, d) else (case split_month ms (d - m) of (k, r) \<Rightarrow> (Suc k, r)))"

definition gmtime :: "int \<Rightarrow> tm" where
  "gmtime t =
     (let s = t mod 86400;
          (y, yd) = split_year 1970 (t div 86400);
          (m, md) = split_month (month_days y) yd
      in \<lparr> tm_year = y, tm_mon = m, tm_mday = md + 1,
           tm_hour = s div 3600, tm_min = s mod 3600 div 60, tm_sec = s mod 60 \<rparr>)"

definition two_digits :: "int \<Rightarrow> string" where
  "two_digits n = zero_pad 2 (dec_digits n)"

definition CurrentUtcIso8601 :: "int \<Rightarrow> string" where
  "CurrentUtcIso8601 now =
     (let utc = gmtime now in
      dec_digits (tm_year utc) @ ''-'' @ two_digits (int (tm_mon utc) + 1) @ ''-'' @
      two_digits (tm_mday utc) @ ''T'' @ two_digits (tm_hour utc) @ '':'' @
      two_digits (tm_min utc) @ '':'' @ two_digits (tm_sec utc) @ ''Z'')"

text \<open>The reading back: days before a year and before a month, then the seconds of a calendar time.\<close>

definition days_before_year :: "int \<Rightarrow> int" where
  "days_before_year y = 365 * y + (y - 1) div 4 - (y - 1) div 100 + (y - 1) div 400"

definition tm_seconds :: "tm \<Rightarrow> int" where
  "tm_seconds u =
     (days_before_year (tm_year u) - days_before_year 1970
        + sum_list (take (tm_mon u) (month_days (tm_year u))) + tm_mday u - 1) * 86400
     + tm_hour u * 3600 + tm_min u * 60 + tm_sec u"

lemma div_pred:
  fixes y k :: int
  assumes "0 < k"
  shows "y div k = (y - 1) div k + (if y mod k = 0 then 1 else 0)"
proof (cases "y mod k = 0")
  case True
  have "y - 1 = k * (y div k - 1) + (k - 1)"
    using True by (metis add.commute add_0 diff_add_cancel diff_add_eq mult_div_mod_eq right_diff_distrib mult.right_neutral)
  then have "(y - 1) div k = y div k - 1" using assms by (intro int_div_pos_eq [of _ _ _ "k - 1"]) auto
  with True show ?thesis by simp
next
  case False
  have r: "0 < y mod k" "y mod k < k"
    using assms False pos_mod_sign [of k y] pos_mod_bound [of k y] by (auto simp: order.order_iff_strict)
  have "y - 1 = k * (y div k) + (y mod k - 1)" by simp
  then have "(y - 1) div k = y div k" using r by (intro int_div_pos_eq [of _ _ _ "y mod k - 1"]) auto
  with False show ?thesis by simp
qed

lemma leap_count:
  "(p400 \<Longrightarrow> p100) \<Longrightarrow> (p100 \<Longrightarrow> p4) \<Longrightarrow>
   (if p4 then 1 else 0) - (if p100 then 1 else 0) + (if p400 then 1 else 0) =
   (if p4 \<and> (\<not> p100 \<or> p400) then 1 else (0 :: int))"
  by (cases p4; cases p100; cases p400) simp_all

lemma year_recompose:
  fixes y :: int
  assumes "a4' = a4 + i4" "a100' = a100 + i100" "a400' = a400 + i400" "i4 - i100 + i400 = l"
  shows "365 * y + 365 + a4' - a100' + a400' = 365 * y + a4 - a100 + a400 + (365 + l)"
  using assms by simp

lemma days_before_next_year: "days_before_year (y + 1) = days_before_year y + year_days y"
proof -
  have "y mod 400 = 0 \<Longrightarrow> y mod 100 = 0" "y mod 100 = 0 \<Longrightarrow> y mod 4 = 0"
    unfolding mod_eq_0_iff_dvd by (erule dvd_trans [rotated], simp)+
  note leap = leap_count [of "y mod 400 = 0" "y mod 100 = 0" "y mod 4 = 0", OF this, folded leap_year_def]
  have year: "year_days y = 365 + (if leap_year y then 1 else 0)"
    by (simp add: year_days_def)
  have succ: "days_before_year (y + 1) = 365 * y + 365 + y div 4 - y div 100 + y div 400"
    by (simp only: days_before_year_def add_diff_cancel_right' distrib_left mult.right_neutral)
  show ?thesis
    unfolding year succ days_before_year_def [of y]
    by (rule year_recompose [OF div_pred div_pred div_pred leap]) simp_all
qed

lemma split_year_correct:
  "split_year y d = (y', d') \<Longrightarrow>
     0 \<le> d' \<and> d' < year_days y' \<and> days_before_year y + d = days_before_year y' + d'"
proof (induction y d arbitrary: y' d' rule: split_year.induct)
  case (1 y d)
  have prev: "days_before_year y = days_before_year (y - 1) + year_days (y - 1)"
    using days_before_next_year [of "y - 1"] by (simp only: diff_add_cancel)
  consider (neg) "d < 0" | (here) "0 \<le> d" "d < year_days y" | (later) "0 \<le> d" "\<not> d < year_days y"
    by linarith
  then show ?case
  proof cases
    case neg
    with "1.prems" have "split_year (y - 1) (d + year_days (y - 1)) = (y', d')"
      by (simp add: split_year.simps [of y d])
    from "1.IH"(1) [OF neg this] prev show ?thesis by simp
  next
    case here
    with "1.prems" show ?thesis by (simp add: split_year.simps [of y d])
  next
    case later
    with "1.prems" have "split_year (y + 1) (d - year_days y) = (y', d')"
      by (simp add: split_year.simps [of y d])
    from "1.IH"(2) [OF _ _ this] later days_before_next_year [of y] show ?thesis by simp
  qed
qed

lemma split_month_correct:
  "split_month ms d = (m, r) \<Longrightarrow> 0 \<le> d \<Longrightarrow> d < sum_list ms \<Longrightarrow>
     m < length ms \<and> 0 \<le> r \<and> r < ms ! m \<and> d = sum_list (take m ms) + r"
proof (induction ms arbitrary: d m r)
  case (Cons x ms)
  then show ?case by (fastforce split: if_splits prod.splits)
qed simp

lemma month_days_total: "sum_list (month_days y) = year_days y" "length (month_days y) = 12"
  by (simp_all add: month_days_def year_days_def)

lemma time_recompose:
  fixes t :: int
  assumes "t = q * 86400 + s" "s = h * 3600 + m * 60 + x" "b - c + e + md = q"
  shows "(b - c + e + (md + 1) - 1) * 86400 + h * 3600 + m * 60 + x = t"
  using assms by simp

lemma hms_bounds:
  fixes s :: int
  assumes "0 \<le> s" "s < 86400"
  shows "s = s div 3600 * 3600 + s mod 3600 div 60 * 60 + s mod 60"
    and "0 \<le> s div 3600" "s div 3600 < 24" "0 \<le> s mod 3600 div 60" "s mod 3600 div 60 < 60"
proof -
  have "s mod 3600 mod 60 = s mod 60" by (rule mod_mod_cancel) simp
  then show "s = s div 3600 * 3600 + s mod 3600 div 60 * 60 + s mod 60"
    by (metis add.assoc div_mult_mod_eq)
  have "s div 3600 \<le> 86399 div 3600" using assms by (intro zdiv_mono1) auto
  then show "s div 3600 < 24" by simp
  have "s mod 3600 div 60 \<le> 3599 div 60"
    by (intro zdiv_mono1) (use pos_mod_bound [of 3600 s] in auto)
  then show "s mod 3600 div 60 < 60" by simp
  show "0 \<le> s div 3600" "0 \<le> s mod 3600 div 60"
    using assms by (auto simp: pos_imp_zdiv_nonneg_iff)
qed


end
