(* ===== verification/Signature_Verifier.thy ===== *)
theory Signature_Verifier
  imports Hash_Utils
begin

text \<open>
  \<^verbatim>\<open>src/security/basic_signature_verifier.cpp\<close>: hexadecimal decoding, the loading of the
  public keys and \<open>Verify\<close>. The file system is a parameter (the listing of the directory), and
  so are the calls of OpenSSL; the build without OpenSSL compares the signature with a fixed
  format. Comparisons of \<^verbatim>\<open>char\<close> with letters and digits give the same answer for signed
  and unsigned bytes, so the byte codes are used.
\<close>

section \<open>Hexadecimal decoding\<close>

definition HexNibble :: "char \<Rightarrow> int" where
  "HexNibble c =
     (if 48 \<le> code c \<and> code c \<le> 57 then code c - 48
      else
        (let lower = to_lower c
         in if 97 \<le> code lower \<and> code lower \<le> 102 then 10 + (code lower - 97) else -1))"

fun decode_pairs :: "string \<Rightarrow> u8 list option" where
  "decode_pairs (h # l # r) =
     (let hi = HexNibble h; lo = HexNibble l
      in if hi < 0 \<or> lo < 0 then None
         else map_option (\<lambda>bs. word_of_int (push_bit 4 hi OR lo) # bs) (decode_pairs r))"
| "decode_pairs _ = Some []"

definition DecodeHex :: "string \<Rightarrow> u8 list option" where
  "DecodeHex hex = (if length hex mod 2 \<noteq> 0 then None else decode_pairs hex)"

section \<open>Public keys\<close>

text \<open>A directory entry: its file name, and its text if the file can be opened.\<close>

record dir_entry =
  is_regular_file :: bool
  file_name :: string
  file_text :: "string option"

record key_directory =
  dir_exists :: bool
  is_directory :: bool
  dir_entries :: "dir_entry list"

type_synonym public_key_map = "string \<rightharpoonup> string"

text \<open>\<^verbatim>\<open>path::extension\<close> and \<^verbatim>\<open>path::stem\<close> of a file name.\<close>

definition extension_start :: "string \<Rightarrow> nat option" where
  "extension_start f =
     (if f = ''.'' \<or> f = ''..'' then None
      else case str_rfind (CHR ''.'') f of Some (Suc i) \<Rightarrow> Some (Suc i) | _ \<Rightarrow> None)"

definition path_extension :: "string \<Rightarrow> string" where
  "path_extension f = (case extension_start f of None \<Rightarrow> [] | Some i \<Rightarrow> drop i f)"

definition path_stem :: "string \<Rightarrow> string" where
  "path_stem f = (case extension_start f of None \<Rightarrow> f | Some i \<Rightarrow> take i f)"

definition ReadTextFile :: "dir_entry \<Rightarrow> string" where
  "ReadTextFile e = (case file_text e of None \<Rightarrow> [] | Some t \<Rightarrow> t)"

definition load_key :: "dir_entry \<Rightarrow> public_key_map \<Rightarrow> public_key_map" where
  "load_key e keys =
     (if \<not> is_regular_file e then keys
      else if path_extension (file_name e) \<noteq> ''.pem'' \<and> path_extension (file_name e) \<noteq> ''.pub'' then keys
      else if path_stem (file_name e) = [] then keys
      else if ReadTextFile e \<noteq> [] then keys(path_stem (file_name e) \<mapsto> ReadTextFile e)
      else keys)"

definition LoadPublicKeysFromDirectory :: "key_directory \<Rightarrow> public_key_map" where
  "LoadPublicKeysFromDirectory dir =
     (if \<not> dir_exists dir \<or> \<not> is_directory dir then Map.empty
      else fold load_key (dir_entries dir) Map.empty)"

section \<open>Verification\<close>

text \<open>The OpenSSL calls of \<open>Verify\<close>; \<open>'k\<close> is a parsed key.\<close>

record 'k evp_verify =
  bio_new_mem_buf :: "string \<Rightarrow> bool"
  pem_read_pubkey :: "string \<Rightarrow> 'k option"
  verify_ctx_new :: bool
  verify_init :: "'k \<Rightarrow> int"
  verify_update :: "'k \<Rightarrow> string \<Rightarrow> int"
  verify_final :: "'k \<Rightarrow> string \<Rightarrow> u8 list \<Rightarrow> int"

datatype 'k verify_build = OpenSslVerify "'k evp_verify" | PlainVerify

definition ReadPublicKeyFromPem :: "'k evp_verify \<Rightarrow> string \<Rightarrow> 'k option" where
  "ReadPublicKeyFromPem evp pem = (if \<not> bio_new_mem_buf evp pem then None else pem_read_pubkey evp pem)"

fun check_signature :: "'k verify_build \<Rightarrow> string \<Rightarrow> telemetry_packet \<Rightarrow> bool" where
  "check_signature (OpenSslVerify evp) pem p =
     (case ReadPublicKeyFromPem evp pem of
        None \<Rightarrow> False
      | Some publicKey \<Rightarrow>
          (case DecodeHex (signature p) of
             None \<Rightarrow> False
           | Some signatureBytes \<Rightarrow>
               if \<not> verify_ctx_new evp then False
               else
                 (let initOk = verify_init evp publicKey;
                      updateOk = verify_update evp publicKey (hashHex p);
                      verifyOk = (if initOk = 1 \<and> updateOk = 1
                                  then verify_final evp publicKey (hashHex p) signatureBytes else 0)
                  in verifyOk = 1)))"
| "check_signature PlainVerify pem p = (signature p = hashHex p @ '':'' @ pubKeyId p)"

definition Verify :: "'k verify_build \<Rightarrow> public_key_map \<Rightarrow> telemetry_packet \<Rightarrow> bool" where
  "Verify b publicKeys p =
     (if deviceId p = [] \<or> pubKeyId p = [] then False
      else if \<not> IsHex64 (hashHex p) then False
      else if length (signature p) < 16 then False
      else case publicKeys (pubKeyId p) of
             None \<Rightarrow> False
           | Some pem \<Rightarrow> check_signature b pem p)"

section \<open>The interface of a verifier\<close>

text \<open>
  What the ingest service relies on: a packet passes only under a known key, with a well-formed
  hash, and the verdict reads the identity, the hash and the signature of the packet only.
\<close>

locale signature_verifier =
  fixes verify :: "telemetry_packet \<Rightarrow> bool" and known_keys :: "string set"
  assumes verify_known: "verify p \<Longrightarrow> pubKeyId p \<in> known_keys"
    and verify_hash: "verify p \<Longrightarrow> IsHex64 (hashHex p)"
    and verify_reads: "\<lbrakk> deviceId p = deviceId q; pubKeyId p = pubKeyId q; hashHex p = hashHex q;
          signature p = signature q \<rbrakk> \<Longrightarrow> verify p = verify q"
begin

lemma verify_unbound:
  "verify (p\<lparr>batchCode := b, transport := t\<rparr>) = verify p"
  by (rule verify_reads) simp_all

lemma unknown_key_rejected: "pubKeyId p \<notin> known_keys \<Longrightarrow> \<not> verify p"
  using verify_known by blast

end

lemma check_signature_reads:
  "\<lbrakk> pubKeyId p = pubKeyId q; hashHex p = hashHex q; signature p = signature q \<rbrakk> \<Longrightarrow>
   check_signature b pem p = check_signature b pem q"
  by (cases b) (simp_all only: check_signature.simps)

text \<open>\<open>Verify\<close> as one condition.\<close>

lemma Verify_iff:
  "Verify b keys p \<longleftrightarrow>
     deviceId p \<noteq> [] \<and> pubKeyId p \<noteq> [] \<and> IsHex64 (hashHex p) \<and> 16 \<le> length (signature p) \<and>
     (\<exists>pem. keys (pubKeyId p) = Some pem \<and> check_signature b pem p)"
  by (cases "keys (pubKeyId p)") (simp_all add: Verify_def not_less del: check_signature.simps)

interpretation basic: signature_verifier "Verify b keys" "dom keys" for b keys
proof unfold_locales
  fix p q :: telemetry_packet
  assume eq: "deviceId p = deviceId q" "pubKeyId p = pubKeyId q" "hashHex p = hashHex q"
    "signature p = signature q"
  from eq show "Verify b keys p = Verify b keys q"
    by (simp only: Verify_iff check_signature_reads [OF eq(2-4)])
qed (simp_all only: Verify_iff, blast)


section \<open>Decoding inverts the encoding\<close>

lemma HexNibble_hex_char: "n < 16 \<Longrightarrow> HexNibble (hex_char n) = int n"
  by (rule all_nibbles [where P = "\<lambda>n. HexNibble (hex_char n) = int n"])
     (simp_all add: upt_rec HexNibble_def hex_char_def hex_alphabet_def to_lower_def)

lemma byte_of_nibbles:
  "word_of_int (push_bit 4 (uint (drop_bit 4 v AND 0xF)) OR uint (v AND 0xF)) = (v :: u8)"
proof -
  have m: "(0xF :: u8) = mask 4" by (simp add: mask_eq_exp_minus_1)
  show ?thesis unfolding m by (rule bit_word_eqI) (auto simp: bit_simps)
qed

lemma decode_pairs_HexEncode: "decode_pairs (HexEncode bs) = Some bs"
proof (induction bs)
  case (Cons v bs)
  have hi: "HexNibble (hex_char (unat (drop_bit 4 v AND 0xF))) = uint (drop_bit 4 v AND 0xF)"
    and lo: "HexNibble (hex_char (unat (v AND 0xF))) = uint (v AND 0xF)"
    by (simp_all add: HexNibble_hex_char)
  have "HexEncode (v # bs) =
      hex_char (unat (drop_bit 4 v AND 0xF)) # hex_char (unat (v AND 0xF)) # HexEncode bs"
    by (simp add: HexEncode_def)
  with Cons.IH show ?case
    by (simp only: decode_pairs.simps hi lo Let_def) (simp add: byte_of_nibbles)
qed (simp add: HexEncode_def)

text \<open>Decoding the hexadecimal encoding of any bytes gives the bytes back.\<close>

lemma DecodeHex_HexEncode: "DecodeHex (HexEncode bs) = Some bs"
  by (simp add: DecodeHex_def decode_pairs_HexEncode)

lemma decode_pairs_Some:
  "decode_pairs s = Some bs \<Longrightarrow> even (length s) \<Longrightarrow>
     2 * length bs = length s \<and> list_all (\<lambda>c. 0 \<le> HexNibble c) s"
proof (induction s arbitrary: bs rule: decode_pairs.induct)
  case (1 h l r)
  then show ?case by (auto simp: Let_def split: if_splits)
qed auto

lemma HexNibble_nonneg_iff: "0 \<le> HexNibble c \<longleftrightarrow> is_xdigit c"
  by (auto simp: HexNibble_def is_xdigit_def is_digit_def to_lower_def Let_def)

lemma decode_pairs_None_iff: "even (length s) \<Longrightarrow> decode_pairs s = None \<longleftrightarrow> \<not> list_all is_xdigit s"
proof (induction s rule: decode_pairs.induct)
  case (1 h l r)
  then show ?case
    using HexNibble_nonneg_iff [of h] HexNibble_nonneg_iff [of l] by (auto simp: Let_def not_less)
qed auto

text \<open>Decoding succeeds exactly on texts of even length made of hexadecimal digits, of either
  case, and gives one byte for two characters.\<close>

lemma DecodeHex_total:
  "map_option (\<lambda>bs. 2 * length bs) (DecodeHex s) =
     (if even (length s) \<and> list_all is_xdigit s then Some (length s) else None)"
  using decode_pairs_None_iff [of s] decode_pairs_Some [of s]
  by (cases "decode_pairs s") (auto simp: DecodeHex_def even_iff_mod_2_eq_zero)

section \<open>What the key directory gives\<close>

definition key_file :: "dir_entry \<Rightarrow> bool" where
  "key_file e \<longleftrightarrow> is_regular_file e \<and> path_extension (file_name e) \<in> {''.pem'', ''.pub''} \<and>
     path_stem (file_name e) \<noteq> [] \<and> ReadTextFile e \<noteq> []"

lemma load_key_alt:
  "load_key e keys = (if key_file e then keys(path_stem (file_name e) \<mapsto> ReadTextFile e) else keys)"
  by (simp add: load_key_def key_file_def)

lemma fold_load_key:
  "fold load_key es keys =
     keys ++ map_of (rev (map (\<lambda>e. (path_stem (file_name e), ReadTextFile e)) (filter key_file es)))"
  by (induction es arbitrary: keys) (auto simp: load_key_alt fun_eq_iff map_add_def split: option.splits)

lemma str_rfind_last: "c \<notin> set b \<Longrightarrow> str_rfind c (a @ c # b) = Some (length a)"
proof (induction a)
  case Nil
  have "c \<notin> set b \<Longrightarrow> str_rfind c b = None" by (induction b) auto
  with Nil show ?case by simp
qed simp

lemma path_stem_extension:
  assumes "stem \<noteq> []" "CHR ''.'' \<notin> set ext" "ext \<noteq> []"
  shows "path_stem (stem @ ''.'' @ ext) = stem" and "path_extension (stem @ ''.'' @ ext) = ''.'' @ ext"
proof -
  have "stem @ ''.'' @ ext \<noteq> ''.''" "stem @ ''.'' @ ext \<noteq> ''..''"
    using assms by (cases stem; cases ext; auto simp: append_eq_Cons_conv)+
  moreover obtain n where "length stem = Suc n" using assms(1) by (cases stem) auto
  ultimately have "extension_start (stem @ ''.'' @ ext) = Some (length stem)"
    using str_rfind_last [OF assms(2), of stem] by (simp add: extension_start_def)
  then show "path_stem (stem @ ''.'' @ ext) = stem" "path_extension (stem @ ''.'' @ ext) = ''.'' @ ext"
    by (simp_all add: path_stem_def path_extension_def)
qed

text \<open>A readable, nonempty file named after the key with extension pem or pub is that key's
  text, provided no later entry of the listing is a key file with the same stem.\<close>

lemma LoadPublicKeys_finds:
  assumes "dir_exists d" "is_directory d" "dir_entries d = before @ e # after"
    and "is_regular_file e" "file_name e = keyId @ ''.'' @ ext" "ext = ''pem'' \<or> ext = ''pub''"
    and "keyId \<noteq> []" "file_text e = Some pem" "pem \<noteq> []"
    and later: "\<forall>e' \<in> set after. key_file e' \<longrightarrow> path_stem (file_name e') \<noteq> keyId"
  shows "LoadPublicKeysFromDirectory d keyId = Some pem"
proof -
  have ext: "CHR ''.'' \<notin> set ext" "ext \<noteq> []" using assms(6) by auto
  have e: "key_file e" "path_stem (file_name e) = keyId" "ReadTextFile e = pem"
    using path_stem_extension [OF assms(7) ext] assms
    by (auto simp: key_file_def ReadTextFile_def)
  let ?f = "\<lambda>e. (path_stem (file_name e), ReadTextFile e)"
  have "map_of (rev (map ?f (filter key_file after))) keyId = None"
    using later by (auto simp: map_of_eq_None_iff)
  with e assms(1-3) show ?thesis
    by (simp add: LoadPublicKeysFromDirectory_def fold_load_key load_key_alt map_add_def)
qed

definition demo_directory :: key_directory where
  "demo_directory = \<lparr> dir_exists = True, is_directory = True, dir_entries =
     [\<lparr> is_regular_file = True, file_name = ''README.md'', file_text = Some ''# keys'' \<rparr>,
      \<lparr> is_regular_file = True, file_name = ''pubkey-1.pem'', file_text = Some ''PEM'' \<rparr>] \<rparr>"

lemma LoadPublicKeys_finds_witness:
  "LoadPublicKeysFromDirectory demo_directory ''pubkey-1'' = Some ''PEM''"
  by (rule LoadPublicKeys_finds [where before = "[\<lparr> is_regular_file = True, file_name = ''README.md'',
      file_text = Some ''# keys'' \<rparr>]" and after = "[]" and ext = "''pem''"
      and e = "\<lparr> is_regular_file = True, file_name = ''pubkey-1.pem'', file_text = Some ''PEM'' \<rparr>"])
     (simp_all add: demo_directory_def)

end
