(* ===== verification/Blockchain_Client.thy ===== *)
theory Blockchain_Client
  imports Hash_Utils
begin

text \<open>
  The interface \<^verbatim>\<open>BlockchainClient\<close> (\<^verbatim>\<open>include/blockchain/blockchain_client.h\<close>) and its
  mock implementation (\<^verbatim>\<open>src/blockchain/mock_blockchain_client.cpp\<close>). A client's
  \<^verbatim>\<open>SubmitHash\<close> is a function of its state \<open>'c\<close>; an exception is \<open>Inl\<close>. The mock's
  state is the process-wide counter; the clock is a parameter.
\<close>

record 'c blockchain_client =
  SubmitHash :: "string \<Rightarrow> string \<Rightarrow> u64 \<Rightarrow> 'c \<Rightarrow> (exn + blockchain_receipt) \<times> 'c"

text \<open>\<^verbatim>\<open>counter\<close> starts at 1; \<^verbatim>\<open>fetch_add\<close> returns the old value and wraps.\<close>

definition mock_counter :: u64 where
  "mock_counter = 1"

definition mock_payload :: "string \<Rightarrow> string \<Rightarrow> u64 \<Rightarrow> u64 \<Rightarrow> string" where
  "mock_payload hash device ts nonce =
     hash @ ''|'' @ device @ ''|'' @ u64_to_string ts @ ''|'' @ u64_to_string nonce"

definition mock_SubmitHash ::
  "hash_build \<Rightarrow> int \<Rightarrow> string \<Rightarrow> string \<Rightarrow> u64 \<Rightarrow> u64 \<Rightarrow> (exn + blockchain_receipt) \<times> u64" where
  "mock_SubmitHash h now hash device ts counter =
     (let nonce = counter;
          tx = Sha256Hex h (mock_payload hash device ts nonce);
          height = (case stoull (take 8 tx) 16 of
                           Inl _ \<Rightarrow> 100000
                         | Inr v \<Rightarrow> 100000 + v mod 900000)
      in (Inr \<lparr> txHash = tx, blockHeight = height, submittedAtIso8601 = CurrentUtcIso8601 now \<rparr>,
          counter + 1))"

definition mock_client :: "hash_build \<Rightarrow> int \<Rightarrow> u64 blockchain_client" where
  "mock_client h now = \<lparr> SubmitHash = mock_SubmitHash h now \<rparr>"

lemma lower_hex_facts:
  assumes "lower_hex c"
  shows "\<not> is_space c \<and> c \<noteq> CHR ''-'' \<and> c \<noteq> CHR ''+'' \<and> to_lower c \<noteq> CHR ''x'' \<and> base_digit 16 c"
proof -
  have "c \<in> set hex_alphabet" using assms by (simp add: lower_hex_def)
  moreover have "list_all (\<lambda>c. \<not> is_space c \<and> c \<noteq> CHR ''-'' \<and> c \<noteq> CHR ''+'' \<and> to_lower c \<noteq> CHR ''x'' \<and>
      base_digit 16 c) hex_alphabet"
    by (simp add: hex_alphabet_def is_space_def to_lower_def base_digit_def digit_value_def is_digit_def)
  ultimately show ?thesis by (simp add: list_all_iff)
qed

lemma stoull_hex_value:
  assumes "ds \<noteq> []" "list_all lower_hex ds"
  shows "stoull ds 16 =
    (if 2 ^ 64 \<le> digits_value 16 ds then Inl OutOfRange else Inr (of_int (digits_value 16 ds)))"
proof -
  obtain c cs where ds: "ds = c # cs" using assms(1) by (cases ds) auto
  have x: "\<not> is_space c" "c \<noteq> CHR ''-''" "c \<noteq> CHR ''+''"
    using assms(2) ds lower_hex_facts [of c] by simp_all
  have no_x: "\<forall>d \<in> set ds. to_lower d \<noteq> CHR ''x'' \<and> base_digit 16 d"
    using assms(2) lower_hex_facts unfolding list_all_iff by blast
  then have "strip_0x ds = ds" by (cases ds rule: strip_0x.cases) auto
  moreover have "takeWhile (base_digit 16) ds = ds" using no_x by (intro takeWhile_all) auto
  ultimately show ?thesis using x ds by (simp add: stoull_def Let_def)
qed

lemma digits_value_16_less:
  "list_all lower_hex ds \<Longrightarrow> digits_value 16 ds < 16 ^ length ds"
proof (induction ds rule: rev_induct)
  case (snoc d ds)
  then have "digits_value 16 ds + 1 \<le> 16 ^ length ds" "digit_value d < 16"
    using lower_hex_facts [of d] by (auto simp: base_digit_def)
  then have "digits_value 16 ds * 16 + digit_value d < 16 * 16 ^ length ds" by linarith
  then show ?case by (simp add: digits_value_snoc)
qed (simp add: digits_value_def)

lemma stoull_hex:
  assumes "ds \<noteq> []" "list_all lower_hex ds" "length ds \<le> 8"
  shows "\<exists>v. stoull ds 16 = Inr v"
proof -
  have "digits_value 16 ds < 16 ^ 8"
    using digits_value_16_less [OF assms(2)] power_increasing [OF assms(3), of "16 :: int"] by linarith
  then show ?thesis using stoull_hex_value [OF assms(1,2)] by simp
qed

text \<open>
  A receipt of the mock chain. For either build, the transaction hash is 64 lower-case
  hexadecimal characters and the block height lies between 100000 and 999999 (the fallback branch
  of the height is never taken); the call never throws and uses up exactly one nonce.
\<close>
lemma mock_SubmitHash_receipt:
  assumes "sha256_sized h"
  shows "\<exists>rc. mock_SubmitHash h now hash device ts counter = (Inr rc, counter + 1)
    \<and> txHash rc = Sha256Hex h (mock_payload hash device ts counter)
    \<and> length (txHash rc) = 64 \<and> list_all lower_hex (txHash rc)
    \<and> 100000 \<le> unat (blockHeight rc) \<and> unat (blockHeight rc) \<le> 999999
    \<and> (\<exists>v. stoull (take 8 (txHash rc)) 16 = Inr v)"
proof -
  let ?tx = "Sha256Hex h (mock_payload hash device ts counter)"
  have tx: "length ?tx = 64" "list_all lower_hex ?tx"
    using length_Sha256Hex [OF assms] Sha256Hex_lower_hex by auto
  then have "take 8 ?tx \<noteq> []" "list_all lower_hex (take 8 ?tx)" "length (take 8 ?tx) \<le> 8"
    by (auto simp: list_all_iff dest: in_set_takeD)
  from stoull_hex [OF this] obtain v where v: "stoull (take 8 ?tx) 16 = Inr v" by blast
  have "unat (v mod 900000) < 900000" by (simp add: unat_mod_distrib)
  then have "unat (100000 + v mod 900000) = 100000 + unat (v mod 900000)"
    by (simp add: unat_add_lem [THEN iffD1])
  with tx v \<open>unat (v mod 900000) < 900000\<close> show ?thesis by (simp add: mock_SubmitHash_def Let_def)
qed

text \<open>
  The mock chain never hashes the same text twice while its counter has not wrapped around:
  the payloads of two calls with 64-character hashes are equal only if hash, device, timestamp
  and nonce all are, so within a process two submissions share a transaction hash only if SHA-256
  collides.
\<close>
lemma mock_payload_inject:
  assumes "length hash = 64" and "length hash' = 64"
  shows "mock_payload hash device ts n = mock_payload hash' device' ts' n' \<longleftrightarrow>
    hash = hash' \<and> device = device' \<and> ts = ts' \<and> n = n'"
proof
  assume "mock_payload hash device ts n = mock_payload hash' device' ts' n'"
  then have eq: "hash = hash'"
    "(device @ CHR ''|'' # u64_to_string ts) @ CHR ''|'' # u64_to_string n =
     (device' @ CHR ''|'' # u64_to_string ts') @ CHR ''|'' # u64_to_string n'"
    using assms by (simp_all add: mock_payload_def)
  from split_last_bar [OF eq(2) no_bar_u64 no_bar_u64]
  have "device @ CHR ''|'' # u64_to_string ts = device' @ CHR ''|'' # u64_to_string ts'" "n = n'" by simp_all
  with split_last_bar [OF this(1) no_bar_u64 no_bar_u64] eq(1)
  show "hash = hash' \<and> device = device' \<and> ts = ts' \<and> n = n'" by simp
qed simp

lemma mock_payload_inject_witness:
  "mock_payload zero_hash ''a|1'' 2 3 \<noteq> mock_payload zero_hash ''a'' 1 3"
  using mock_payload_inject [of zero_hash zero_hash "''a|1''" 2 3 "''a''" 1 3] by (simp add: zero_hash_def)

lemma mock_SubmitHash_receipt_witness:
  "\<exists>rc. mock_SubmitHash (StdHash (\<lambda>s. 0)) 0 ''h'' ''d'' 5 mock_counter = (Inr rc, 2) \<and>
     100000 \<le> unat (blockHeight rc)"
  using mock_SubmitHash_receipt [of "StdHash (\<lambda>s. 0)" 0 "''h''" "''d''" 5 mock_counter]
  by (auto simp: mock_counter_def)

section \<open>The contract of the interface\<close>

text \<open>
  What the callers of \<^verbatim>\<open>SubmitHash\<close> rely on, as long as the state of the client is usable: a
  receipt names a transaction, without a quotation mark, and a time of the clock.
\<close>

definition proper_receipt :: "blockchain_receipt \<Rightarrow> bool" where
  "proper_receipt rc \<longleftrightarrow> txHash rc \<noteq> [] \<and> CHR 0x22 \<notin> set (txHash rc) \<and>
     (\<exists>now. submittedAtIso8601 rc = CurrentUtcIso8601 now)"

locale receipt_source =
  fixes client :: "'c blockchain_client" and usable :: "'c \<Rightarrow> bool"
  assumes proper: "usable s \<Longrightarrow> SubmitHash client hash device ts s = (Inr rc, s') \<Longrightarrow> proper_receipt rc"
    and usable_after: "usable s \<Longrightarrow> SubmitHash client hash device ts s = (res, s') \<Longrightarrow> usable s'"

lemma lower_hex_no_quote: "list_all lower_hex s \<Longrightarrow> CHR 0x22 \<notin> set s"
proof -
  have "\<not> lower_hex (CHR 0x22)" by code_simp
  then show "list_all lower_hex s \<Longrightarrow> CHR 0x22 \<notin> set s" by (auto simp: list_all_iff)
qed

lemma mock_proper:
  assumes "sha256_sized h" "mock_SubmitHash h now hash device ts counter = (Inr rc, counter')"
  shows "proper_receipt rc"
proof -
  have "txHash rc = Sha256Hex h (mock_payload hash device ts counter)" "submittedAtIso8601 rc = CurrentUtcIso8601 now"
    using assms(2) by (auto simp: mock_SubmitHash_def Let_def)
  moreover have "length (txHash rc) = 64" using length_Sha256Hex [OF assms(1)] calculation(1) by simp
  then have "txHash rc \<noteq> []" by auto
  moreover have "CHR 0x22 \<notin> set (txHash rc)" unfolding calculation(1) by (rule lower_hex_no_quote) (rule Sha256Hex_lower_hex)
  ultimately show ?thesis by (auto simp: proper_receipt_def)
qed

interpretation mock: receipt_source "mock_client h now" "\<lambda>_. sha256_sized h" for h now
  by unfold_locales (auto simp: mock_client_def mock_proper)

end
