(* ===== verification/Ingest_Service.thy ===== *)
theory Ingest_Service
  imports In_Memory_Repository Signature_Verifier Blockchain_Client
begin

text \<open>
  \<^verbatim>\<open>src/ingest/ingest_service.cpp\<close>: the checks on a packet, the two-phase write (save,
  submit to the chain, attach the receipt, with a best-effort rollback) and the metrics counters.
  The repository, the verifier and the chain client are the references the constructor stores;
  their states are part of the gateway's. The elapsed milliseconds of a call, read from the
  steady clock, are an argument.
\<close>

record ('r, 'c) ingest_service =
  repository :: "'r telemetry_repository"
  signatureVerifier :: "telemetry_packet \<Rightarrow> bool"
  blockchainClient :: "'c blockchain_client"
  hashBuild :: hash_build

record ('r, 'c) gateway =
  repositoryState :: 'r
  chainState :: 'c
  totalRequests :: u64
  acceptedRequests :: u64
  rejectedRequests :: u64
  totalProcessingMs :: u64

definition new_gateway :: "'r \<Rightarrow> 'c \<Rightarrow> ('r, 'c) gateway" where
  "new_gateway r c = \<lparr> repositoryState = r, chainState = c, totalRequests = 0,
     acceptedRequests = 0, rejectedRequests = 0, totalProcessingMs = 0 \<rparr>"

definition RecordAccepted :: "u64 \<Rightarrow> ('r, 'c) gateway \<Rightarrow> ('r, 'c) gateway" where
  "RecordAccepted ms g = g\<lparr> totalRequests := totalRequests g + 1,
     acceptedRequests := acceptedRequests g + 1, totalProcessingMs := totalProcessingMs g + ms \<rparr>"

definition RecordRejected :: "u64 \<Rightarrow> ('r, 'c) gateway \<Rightarrow> ('r, 'c) gateway" where
  "RecordRejected ms g = g\<lparr> totalRequests := totalRequests g + 1,
     rejectedRequests := rejectedRequests g + 1, totalProcessingMs := totalProcessingMs g + ms \<rparr>"

text \<open>The lambda \<^verbatim>\<open>finishWith\<close> followed by \<^verbatim>\<open>return result\<close>.\<close>

definition finishWith :: "u64 \<Rightarrow> bool \<Rightarrow> string \<Rightarrow> ingest_result \<Rightarrow> ('r, 'c) gateway
    \<Rightarrow> (exn + ingest_result) \<times> ('r, 'c) gateway" where
  "finishWith ms success msg result g =
     (Inr (result\<lparr> accepted := success, message := msg, processingMs := ms \<rparr>),
      if success then RecordAccepted ms g else RecordRejected ms g)"

definition exn_text :: "exn \<Rightarrow> string" where
  "exn_text e = (case e of StdException what \<Rightarrow> what | OtherException \<Rightarrow> ''unknown error'')"

definition rollbackBestEffort ::
  "('r, 'c) ingest_service \<Rightarrow> u64 \<Rightarrow> ('r, 'c) gateway \<Rightarrow> string \<times> ('r, 'c) gateway" where
  "rollbackBestEffort svc i g =
     (case Delete (repository svc) i (repositoryState g) of
        (Inr removed, r) \<Rightarrow>
          (if removed then [] else ''; rollback delete did not remove record'',
           g\<lparr> repositoryState := r \<rparr>)
      | (Inl ex, r) \<Rightarrow> (''; rollback delete failed: '' @ exn_text ex, g\<lparr> repositoryState := r \<rparr>))"

text \<open>A failure after the save: roll back, then finish with the message and its suffix.\<close>

definition fail_after_save :: "('r, 'c) ingest_service \<Rightarrow> u64 \<Rightarrow> u64 \<Rightarrow> string \<Rightarrow> ingest_result
    \<Rightarrow> ('r, 'c) gateway \<Rightarrow> (exn + ingest_result) \<times> ('r, 'c) gateway" where
  "fail_after_save svc ms i msg result g =
     (let (rollbackSuffix, g) = rollbackBestEffort svc i g
      in finishWith ms False (msg @ rollbackSuffix) result g)"

definition canonical :: "telemetry_packet \<Rightarrow> string" where
  "canonical p = deviceId p @ ''|'' @ u64_to_string (timestamp p) @ ''|'' @ telemetryJson p"

text \<open>The part of \<open>Ingest\<close> from the save on.\<close>

definition two_phase :: "('r, 'c) ingest_service \<Rightarrow> u64 \<Rightarrow> telemetry_packet \<Rightarrow> ('r, 'c) gateway
    \<Rightarrow> (exn + ingest_result) \<times> ('r, 'c) gateway" where
  "two_phase svc ms p g =
     (case Save (repository svc) p (repositoryState g) of
        (Inl ex, r) \<Rightarrow> (Inl ex, g\<lparr> repositoryState := r \<rparr>)
      | (Inr rid, r) \<Rightarrow>
          (let result = default_ingest_result\<lparr> resultRecordId := rid \<rparr>;
               g = g\<lparr> repositoryState := r \<rparr>
           in case SubmitHash (blockchainClient svc) (hashHex p) (deviceId p) (timestamp p) (chainState g) of
                (Inl ex, c) \<Rightarrow>
                  fail_after_save svc ms rid (''blockchain submit failed: '' @ exn_text ex) result
                    (g\<lparr> chainState := c \<rparr>)
              | (Inr rc, c) \<Rightarrow>
                  (let g = g\<lparr> chainState := c \<rparr>
                   in case AttachReceipt (repository svc) rid rc (repositoryState g) of
                        (Inr attached, r) \<Rightarrow>
                          if \<not> attached
                          then fail_after_save svc ms rid
                                 ''receipt persistence failed after blockchain submit'' result
                                 (g\<lparr> repositoryState := r \<rparr>)
                          else finishWith ms True ''accepted'' (result\<lparr> resultReceipt := Some rc \<rparr>)
                                 (g\<lparr> repositoryState := r \<rparr>)
                      | (Inl ex, r) \<Rightarrow>
                          fail_after_save svc ms rid (''receipt persistence failed: '' @ exn_text ex) result
                            (g\<lparr> repositoryState := r \<rparr>))))"

definition Ingest :: "('r, 'c) ingest_service \<Rightarrow> u64 \<Rightarrow> telemetry_packet \<Rightarrow> ('r, 'c) gateway
    \<Rightarrow> (exn + ingest_result) \<times> ('r, 'c) gateway" where
  "Ingest svc ms p g =
     (let result = default_ingest_result in
      if deviceId p = [] then finishWith ms False ''deviceId is required'' result g
      else if timestamp p = 0 then finishWith ms False ''timestamp must be positive'' result g
      else if telemetryJson p = [] then finishWith ms False ''telemetry payload is required'' result g
      else if \<not> IsHex64 (hashHex p) then finishWith ms False ''hash must be 64 hex characters'' result g
      else if hashHex p \<noteq> Sha256Hex (hashBuild svc) (canonical p)
        then finishWith ms False ''hash mismatch with payload'' result g
      else if \<not> signatureVerifier svc p
        then finishWith ms False ''signature verification failed'' result g
      else two_phase svc ms p g)"

text \<open>\<^verbatim>\<open>repository_.Size()\<close> may throw.\<close>

definition GetMetricsSnapshot :: "('r, 'c) ingest_service \<Rightarrow> ('r, 'c) gateway \<Rightarrow> exn + metrics_snapshot" where
  "GetMetricsSnapshot svc g =
     (let average = (if totalRequests g = 0 then 0 else totalProcessingMs g div totalRequests g)
      in case Size (repository svc) (repositoryState g) of
           Inl ex \<Rightarrow> Inl ex
         | Inr n \<Rightarrow> Inr \<lparr> snapTotalRequests = totalRequests g, snapAcceptedRequests = acceptedRequests g,
             snapRejectedRequests = rejectedRequests g, snapAverageProcessingMs = average,
             snapRepositorySize = n \<rparr>)"

section \<open>One ingest over any repository\<close>

definition packet_ok :: "('r, 'c) ingest_service \<Rightarrow> telemetry_packet \<Rightarrow> bool" where
  "packet_ok svc p \<longleftrightarrow> deviceId p \<noteq> [] \<and> timestamp p \<noteq> 0 \<and> telemetryJson p \<noteq> [] \<and>
     IsHex64 (hashHex p) \<and> hashHex p = Sha256Hex (hashBuild svc) (canonical p) \<and> signatureVerifier svc p"

lemmas finish_simps = finishWith_def RecordAccepted_def RecordRejected_def default_ingest_result_def

text \<open>A rejected packet: nothing but the counters changes.\<close>

lemma Ingest_rejects:
  assumes "\<not> packet_ok svc p"
  shows "\<exists>msg. Ingest svc ms p g =
    (Inr (default_ingest_result\<lparr> message := msg, processingMs := ms \<rparr>), RecordRejected ms g)"
  using assms unfolding Ingest_def packet_ok_def Let_def finish_simps
  by (simp split: if_split) blast

lemma Ingest_two_phase: "packet_ok svc p \<Longrightarrow> Ingest svc ms p g = two_phase svc ms p g"
  unfolding Ingest_def packet_ok_def Let_def by (elim conjE) simp

section \<open>The specification of an ingest\<close>

text \<open>The message that admits a failed rollback.\<close>

definition orphan_message :: "string \<Rightarrow> bool" where
  "orphan_message m \<longleftrightarrow> str_find ''; rollback delete failed: '' m \<noteq> None"

lemma orphan_message_append: "orphan_message (a @ ''; rollback delete failed: '' @ why)"
  by (induction a) (simp_all add: orphan_message_def)

text \<open>
  What an ingest may do to the list of stored records: refuse the packet; fail to save it, with
  the repository's exception; commit it with the receipt of the chain; fail later and restore the
  list; or, when the delete throws as well, leave the record without a receipt and say so.
\<close>

definition chain_answer :: "('r, 'c) ingest_service \<Rightarrow> telemetry_packet \<Rightarrow> 'c \<Rightarrow> exn + blockchain_receipt" where
  "chain_answer svc p c = fst (SubmitHash (blockchainClient svc) (hashHex p) (deviceId p) (timestamp p) c)"

inductive ingest_spec :: "('r, 'c) ingest_service \<Rightarrow> (telemetry_packet \<Rightarrow> telemetry_packet)
    \<Rightarrow> (blockchain_receipt \<Rightarrow> blockchain_receipt) \<Rightarrow> telemetry_packet \<Rightarrow> 'c
    \<Rightarrow> telemetry_record list \<Rightarrow> exn + ingest_result \<Rightarrow> telemetry_record list \<Rightarrow> bool"
  for svc stored stored_receipt p c rs where
  refused: "\<lbrakk> \<not> packet_ok svc p; \<not> accepted r; resultReceipt r = None \<rbrakk> \<Longrightarrow>
    ingest_spec svc stored stored_receipt p c rs (Inr r) rs"
| not_saved: "\<lbrakk> packet_ok svc p; fst (Save (repository svc) p s) = Inl e \<rbrakk> \<Longrightarrow>
    ingest_spec svc stored stored_receipt p c rs (Inl e) rs"
| committed: "\<lbrakk> packet_ok svc p; accepted r; chain_answer svc p c = Inr rc; resultReceipt r = Some rc;
      resultRecordId r \<notin> set (ids rs) \<rbrakk> \<Longrightarrow>
    ingest_spec svc stored stored_receipt p c rs (Inr r)
      (rs @ [\<lparr> recordId = resultRecordId r, packet = stored p, receipt = Some (stored_receipt rc) \<rparr>])"
| rolled_back: "\<lbrakk> packet_ok svc p; \<not> accepted r; resultReceipt r = None;
      chain_answer svc p c = Inl e \<or> fst (AttachReceipt (repository svc) i rc s) = Inl e \<rbrakk> \<Longrightarrow>
    ingest_spec svc stored stored_receipt p c rs (Inr r) rs"
| orphaned: "\<lbrakk> packet_ok svc p; \<not> accepted r; resultReceipt r = None; orphan_message (message r);
      fst (Delete (repository svc) (resultRecordId r) s) = Inl e; resultRecordId r \<notin> set (ids rs) \<rbrakk> \<Longrightarrow>
    ingest_spec svc stored stored_receipt p c rs (Inr r)
      (rs @ [new_record (resultRecordId r) (stored p)])"

inductive_cases ingest_spec_thrown: "ingest_spec svc stored stored_receipt p c rs (Inl e) rs'"
inductive_cases ingest_spec_result: "ingest_spec svc stored stored_receipt p c rs (Inr r) rs'"

locale ingest_client =
  telemetry_store ops inv room contents stored stored_receipt lookup_key +
  signature_verifier verify known_keys
  for ops :: "'r telemetry_repository" and inv room contents stored stored_receipt lookup_key
    and verify known_keys +
  fixes svc :: "('r, 'c) ingest_service"
  assumes repository_ops: "repository svc = ops" and verifier_verify: "signatureVerifier svc = verify"
begin

text \<open>A failure after the save of record \<open>i\<close> restores the store unless the delete itself throws.\<close>

lemma fail_after_save_spec:
  assumes ok: "packet_ok svc p" and why: "chain_answer svc p c = Inl e \<or> fst (AttachReceipt ops j rc s) = Inl e"
    and inv: "inv (repositoryState g)" and st: "contents (repositoryState g) = rs @ [new_record i (stored p)]"
    and fresh: "i \<notin> set (ids rs)"
    and run: "fail_after_save svc ms i msg (default_ingest_result\<lparr>resultRecordId := i\<rparr>) g = (res, g')"
  shows "inv (repositoryState g') \<and> ingest_spec svc stored stored_receipt p c rs res (contents (repositoryState g'))"
proof -
  obtain d r' where del: "Delete ops i (repositoryState g) = (d, r')" by fastforce
  show ?thesis
  proof (cases d)
    case (Inr b)
    from delete_ok [OF inv] del Inr st fresh
    have "inv r' \<and> b \<and> contents r' = rs" by (auto simp: store_delete_new)
    moreover from run del Inr obtain r where "res = Inr r" "\<not> accepted r" "resultReceipt r = None"
        "repositoryState g' = r'"
      by (auto simp: fail_after_save_def rollbackBestEffort_def repository_ops finish_simps)
    ultimately show ?thesis using rolled_back [OF ok, of r c e j rc s] why by (simp add: repository_ops)
  next
    case (Inl x)
    from delete_error [OF inv] del Inl st
    have "inv r' \<and> contents r' = rs @ [new_record i (stored p)]" by auto
    moreover from run del Inl orphan_message_append [of msg "exn_text x"]
    obtain r where "res = Inr r" "\<not> accepted r" "resultReceipt r = None" "orphan_message (message r)"
        "resultRecordId r = i" "repositoryState g' = r'"
      by (auto simp: fail_after_save_def rollbackBestEffort_def repository_ops finish_simps)
    ultimately show ?thesis
      using orphaned [OF ok, of r "repositoryState g" x] fresh del Inl by (simp add: repository_ops)
  qed
qed

lemma two_phase_spec:
  assumes ok: "packet_ok svc p" and inv: "inv (repositoryState g)" and room: "room (repositoryState g)"
    and run: "two_phase svc ms p g = (res, g')"
  shows "inv (repositoryState g') \<and>
    ingest_spec svc stored stored_receipt p (chainState g) (contents (repositoryState g)) res (contents (repositoryState g'))"
proof -
  let ?rs = "contents (repositoryState g)"
  note run' = run [unfolded two_phase_def repository_ops]
  obtain sv r1 where sv: "Save ops p (repositoryState g) = (sv, r1)" by fastforce
  show ?thesis
  proof (cases sv)
    case (Inl e)
    with sv save_error [OF inv] run' not_saved [OF ok, of "repositoryState g" e] show ?thesis
      by (auto simp: repository_ops)
  next
    case (Inr i)
    note save = save_ok [OF inv room sv [unfolded Inr]]
    let ?res = "default_ingest_result\<lparr>resultRecordId := i\<rparr>"
    obtain sub c where sub: "SubmitHash (blockchainClient svc) (hashHex p) (deviceId p) (timestamp p) (chainState g) = (sub, c)"
      by fastforce
    then have ans: "chain_answer svc p (chainState g) = sub" by (simp add: chain_answer_def)
    show ?thesis
    proof (cases sub)
      case (Inl e)
      with run' sv Inr sub have "fail_after_save svc ms i (''blockchain submit failed: '' @ exn_text e) ?res
          (g\<lparr>repositoryState := r1, chainState := c\<rparr>) = (res, g')" by simp
      from fail_after_save_spec [OF ok _ _ _ _ this, of "chainState g" e _ _ _ ?rs] save ans Inl
      show ?thesis by simp
    next
      case submitted: (Inr rc)
      obtain at r2 where at: "AttachReceipt ops i rc r1 = (at, r2)" by fastforce
      show ?thesis
      proof (cases at)
        case (Inl e)
        with run' sv Inr sub submitted at
        have "fail_after_save svc ms i (''receipt persistence failed: '' @ exn_text e) ?res
            (g\<lparr>repositoryState := r1, chainState := c, repositoryState := r2\<rparr>) = (res, g')" by simp
        from fail_after_save_spec [OF ok _ _ _ _ this, of "chainState g" e i rc r1 ?rs]
          save attach_error [of r1 i rc e r2] at Inl show ?thesis by simp
      next
        case attached: (Inr b)
        note sa = save_attach [OF inv room sv [unfolded Inr] at [unfolded attached]]
        with run' sv Inr sub submitted at attached
        have "(res, g') = finishWith ms True ''accepted'' (?res\<lparr>resultReceipt := Some rc\<rparr>)
            (g\<lparr>repositoryState := r1, chainState := c, repositoryState := r2\<rparr>)" by simp
        then obtain r where "res = Inr r" "accepted r" "resultReceipt r = Some rc" "resultRecordId r = i"
            "repositoryState g' = r2" by (simp add: finish_simps)
        with sa save committed [OF ok, of r "chainState g" rc ?rs] ans submitted show ?thesis by simp
      qed
    qed
  qed
qed

lemma Ingest_spec:
  assumes inv: "inv (repositoryState g)" and room: "room (repositoryState g)"
    and run: "Ingest svc ms p g = (res, g')"
  shows "inv (repositoryState g') \<and>
    ingest_spec svc stored stored_receipt p (chainState g) (contents (repositoryState g)) res (contents (repositoryState g'))"
proof (cases "packet_ok svc p")
  case False
  from Ingest_rejects [OF False, of ms g] run obtain msg
    where "res = Inr (default_ingest_result\<lparr> message := msg, processingMs := ms \<rparr>)" "g' = RecordRejected ms g"
    by auto
  with refused [OF False, of "default_ingest_result\<lparr> message := msg, processingMs := ms \<rparr>"] inv
  show ?thesis by (simp add: finish_simps)
next
  case True
  with two_phase_spec [OF True inv room] run show ?thesis by (simp add: Ingest_two_phase)
qed

end

text \<open>A repository whose calls never throw: there is no orphan and no exception.\<close>

locale reliable_client =
  ingest_client ops inv room contents stored stored_receipt lookup_key verify known_keys svc
  for ops :: "'r telemetry_repository" and inv room contents stored stored_receipt lookup_key
    and verify known_keys and svc :: "('r, 'c) ingest_service" +
  assumes save_total: "fst (Save ops p s) \<noteq> Inl e"
    and attach_total: "fst (AttachReceipt ops i rc s) \<noteq> Inl e"
    and delete_total: "fst (Delete ops i s) \<noteq> Inl e"
begin

lemma Ingest_exact:
  assumes "inv (repositoryState g)" and "room (repositoryState g)"
    and "Ingest svc ms p g = (res, g')"
  shows "inv (repositoryState g') \<and> (\<exists>r. res = Inr r
    \<and> (accepted r \<longleftrightarrow> packet_ok svc p \<and> (\<exists>rc. chain_answer svc p (chainState g) = Inr rc))
    \<and> (accepted r \<longrightarrow> resultReceipt r \<noteq> None \<and> resultRecordId r \<notin> set (ids (contents (repositoryState g))))
    \<and> contents (repositoryState g') = contents (repositoryState g) @
        (if accepted r then [\<lparr> recordId = resultRecordId r, packet = stored p,
           receipt = map_option stored_receipt (resultReceipt r) \<rparr>] else []))"
proof (cases res)
  case (Inl e)
  with Ingest_spec [OF assms] show ?thesis
    by (auto elim!: ingest_spec_thrown simp: repository_ops save_total)
next
  case (Inr r)
  with Ingest_spec [OF assms] show ?thesis
    by (auto elim!: ingest_spec_result simp: repository_ops attach_total delete_total)
qed

end

section \<open>Receipts\<close>

context receipt_source
begin

lemma two_phase_receipt:
  assumes "blockchainClient svc = client" and "usable (chainState g)" and "two_phase svc ms p g = (Inr r, g')" and "accepted r"
  shows "\<exists>rc. resultReceipt r = Some rc \<and> proper_receipt rc"
proof -
  obtain x r1 where save: "Save (repository svc) p (repositoryState g) = (x, r1)" by fastforce
  obtain y c where sub: "SubmitHash client (hashHex p) (deviceId p) (timestamp p) (chainState g) = (y, c)" by fastforce
  have "\<exists>i rc. x = Inr i \<and> y = Inr rc \<and> resultReceipt r = Some rc"
    using assms(1,3,4) save sub
    by (auto simp: two_phase_def fail_after_save_def finish_simps Let_def split: sum.splits prod.splits if_splits)
  with proper [OF assms(2)] sub show ?thesis by auto
qed

lemma accepted_receipt:
  assumes "blockchainClient svc = client" and "usable (chainState g)" and "Ingest svc ms p g = (Inr r, g')" and "accepted r"
  shows "\<exists>rc. resultReceipt r = Some rc \<and> proper_receipt rc"
proof (cases "packet_ok svc p")
  case True
  with assms(3) two_phase_receipt [OF assms(1,2) _ assms(4)] show ?thesis by (simp add: Ingest_two_phase)
next
  case False
  from Ingest_rejects [OF this, of ms g] assms(3,4) show ?thesis by (auto simp: default_ingest_result_def)
qed

end

section \<open>Counters\<close>

lemma rollback_counters:
  "rollbackBestEffort svc i g = (sfx, g') \<Longrightarrow> chainState g' = chainState g \<and>
     totalRequests g' = totalRequests g \<and> acceptedRequests g' = acceptedRequests g \<and>
     rejectedRequests g' = rejectedRequests g \<and> totalProcessingMs g' = totalProcessingMs g"
  by (auto simp: rollbackBestEffort_def split: prod.splits sum.splits)

lemma fail_after_save_counters:
  "fail_after_save svc ms i msg result g = (res, g') \<Longrightarrow>
     \<exists>r. res = Inr r \<and> \<not> accepted r \<and> processingMs r = ms \<and> chainState g' = chainState g \<and>
     totalRequests g' = totalRequests g + 1 \<and> acceptedRequests g' = acceptedRequests g \<and>
     rejectedRequests g' = rejectedRequests g + 1 \<and> totalProcessingMs g' = totalProcessingMs g + ms"
  using rollback_counters [of svc i g]
  by (auto simp: fail_after_save_def finish_simps split: prod.splits)

text \<open>A call that returns is counted once, in one of the two counters; one that throws is not.\<close>

lemma Ingest_counters:
  assumes "Ingest svc ms p g = (res, g')"
  shows "case res of
      Inl e \<Rightarrow> totalRequests g' = totalRequests g \<and> acceptedRequests g' = acceptedRequests g \<and>
        rejectedRequests g' = rejectedRequests g \<and> totalProcessingMs g' = totalProcessingMs g
    | Inr r \<Rightarrow> processingMs r = ms \<and> totalRequests g' = totalRequests g + 1 \<and>
        acceptedRequests g' = acceptedRequests g + (if accepted r then 1 else 0) \<and>
        rejectedRequests g' = rejectedRequests g + (if accepted r then 0 else 1) \<and>
        totalProcessingMs g' = totalProcessingMs g + ms"
proof (cases "packet_ok svc p")
  case False
  from Ingest_rejects [OF this, of ms g] assms show ?thesis by (auto simp: finish_simps)
next
  case True
  from assms [unfolded Ingest_two_phase [OF True] two_phase_def Let_def] show ?thesis
    by (auto simp: finish_simps split: prod.splits sum.splits if_splits dest!: fail_after_save_counters)
qed

section \<open>Sequences of requests\<close>

primrec gateway_run :: "('r, 'c) ingest_service \<Rightarrow> (u64 \<times> telemetry_packet) list \<Rightarrow> ('r, 'c) gateway
    \<Rightarrow> (exn + ingest_result) list \<times> ('r, 'c) gateway" where
  "gateway_run svc [] g = ([], g)"
| "gateway_run svc (call # calls) g =
     (let (res, g) = Ingest svc (fst call) (snd call) g;
          (results, g) = gateway_run svc calls g
      in (res # results, g))"

definition returned :: "(exn + ingest_result) list \<Rightarrow> ingest_result list" where
  "returned results = concat (map (\<lambda>x. case x of Inl _ \<Rightarrow> [] | Inr r \<Rightarrow> [r]) results)"

lemma returned_simps [simp]:
  "returned [] = []" "returned (Inl e # xs) = returned xs" "returned (Inr r # xs) = r # returned xs"
  by (simp_all add: returned_def)

lemma metrics_hold:
  "case gateway_run svc calls (new_gateway r0 c0) of (results, g) \<Rightarrow>
     totalRequests g = of_nat (length (returned results))
     \<and> acceptedRequests g = of_nat (length (filter accepted (returned results)))
     \<and> rejectedRequests g = of_nat (length (filter (\<lambda>r. \<not> accepted r) (returned results)))
     \<and> totalProcessingMs g = sum_list (map processingMs (returned results))"
proof -
  have "totalRequests g = totalRequests g0 + of_nat (length (returned results))
    \<and> acceptedRequests g = acceptedRequests g0 + of_nat (length (filter accepted (returned results)))
    \<and> rejectedRequests g = rejectedRequests g0 + of_nat (length (filter (\<lambda>r. \<not> accepted r) (returned results)))
    \<and> totalProcessingMs g = totalProcessingMs g0 + sum_list (map processingMs (returned results))"
    if "gateway_run svc calls g0 = (results, g)" for g0 results and g :: "('a, 'b) gateway"
    using that
  proof (induction calls arbitrary: g0 results)
    case (Cons call calls)
    obtain res g1 where one: "Ingest svc (fst call) (snd call) g0 = (res, g1)" by fastforce
    obtain rs g2 where rest: "gateway_run svc calls g1 = (rs, g2)" by fastforce
    with one Cons.prems have eq: "results = res # rs" "g = g2" by auto
    from Cons.IH [OF rest [folded eq(2)]] Ingest_counters [OF one] show ?case
      unfolding eq(1) by (cases res) (auto simp: add_ac)
  qed simp
  from this [of "new_gateway r0 c0"] show ?thesis by (simp add: new_gateway_def split: prod.split)
qed


text \<open>
  The metrics counters agree with the results. Over any repository, verifier and chain client
  and any sequence of ingests from a fresh gateway, the total is the number of calls that
  returned, the accepted and rejected counters the number of accepted and rejected results, and
  the processing time the sum of the reported times (all modulo \<open>2 ^ 64\<close>); calls that end
  with an exception of the repository are in none of them.
\<close>
lemma metrics_count_results:
  "case gateway_run svc calls (new_gateway r0 c0) of (results, g) \<Rightarrow>
     totalRequests g = of_nat (length (returned results))
     \<and> acceptedRequests g = of_nat (length (filter accepted (returned results)))
     \<and> rejectedRequests g = of_nat (length (filter (\<lambda>r. \<not> accepted r) (returned results)))
     \<and> totalProcessingMs g = sum_list (map processingMs (returned results))"
  by (rule metrics_hold)

text \<open>
  C31: the metrics snapshot. As long as the counters have not wrapped around, the total is the
  sum of accepted and rejected requests and the average is the mean of the reported processing
  times rounded down, 0 before the first request; the size is the repository's.
\<close>
theorem GetMetricsSnapshot_mean:
  assumes run: "gateway_run svc calls (new_gateway r0 c0) = (results, g)"
    and few: "length (returned results) < 2 ^ 64"
    and short: "(\<Sum>r \<leftarrow> returned results. unat (processingMs r)) < 2 ^ 64"
    and snap: "GetMetricsSnapshot svc g = Inr m"
  shows "unat (snapTotalRequests m) = unat (snapAcceptedRequests m) + unat (snapRejectedRequests m)
    \<and> unat (snapAverageProcessingMs m) =
        (\<Sum>r \<leftarrow> returned results. unat (processingMs r)) div length (returned results)
    \<and> Size (repository svc) (repositoryState g) = Inr (snapRepositorySize m)"
proof -
  let ?rs = "returned results"
  have cnt: "totalRequests g = of_nat (length ?rs)" "acceptedRequests g = of_nat (length (filter accepted ?rs))"
    "rejectedRequests g = of_nat (length (filter (\<lambda>r. \<not> accepted r) ?rs))"
    "totalProcessingMs g = sum_list (map processingMs ?rs)"
    using metrics_hold [of svc calls r0 c0] run by simp_all
  have le: "length (filter accepted ?rs) + length (filter (\<lambda>r. \<not> accepted r) ?rs) = length ?rs"
    by (rule sum_length_filter_compl)
  have sum: "sum_list (map processingMs rs) = of_nat (\<Sum>r \<leftarrow> rs. unat (processingMs r))" for rs
    by (induction rs) simp_all
  then have total: "unat (totalProcessingMs g) = (\<Sum>r \<leftarrow> ?rs. unat (processingMs r))"
    using short unfolding cnt(4) sum by (simp add: unat_of_nat)
  have u: "unat (totalRequests g) = length ?rs" "unat (acceptedRequests g) = length (filter accepted ?rs)"
    "unat (rejectedRequests g) = length (filter (\<lambda>r. \<not> accepted r) ?rs)"
    using few le by (simp_all add: cnt unat_of_nat)
  have zero: "totalRequests g = 0 \<longleftrightarrow> length ?rs = 0" using u(1) by (metis unat_eq_zero)
  from snap have m: "snapTotalRequests m = totalRequests g" "snapAcceptedRequests m = acceptedRequests g"
    "snapRejectedRequests m = rejectedRequests g" "Size (repository svc) (repositoryState g) = Inr (snapRepositorySize m)"
    "snapAverageProcessingMs m = (if totalRequests g = 0 then 0 else totalProcessingMs g div totalRequests g)"
    by (auto simp: GetMetricsSnapshot_def split: sum.splits)
  have "unat (snapAverageProcessingMs m) = (\<Sum>r \<leftarrow> ?rs. unat (processingMs r)) div length ?rs"
    using zero by (simp add: m(5) unat_div_distrib total u(1))
  with m u le show ?thesis by simp
qed

text \<open>A concrete service, with the build without OpenSSL, the in-memory store and the mock chain.\<close>

definition demo_hash :: hash_build where
  "demo_hash = StdHash (\<lambda>s. of_nat (length s))"

definition demo_verify :: "telemetry_packet \<Rightarrow> bool" where
  "demo_verify = Verify (PlainVerify :: unit verify_build) [''key'' \<mapsto> ''PEM'']"

definition demo_service :: "(in_memory, u64) ingest_service" where
  "demo_service = \<lparr> repository = in_memory_repository, signatureVerifier = demo_verify,
     blockchainClient = mock_client demo_hash 0, hashBuild = demo_hash \<rparr>"

definition demo_packet :: telemetry_packet where
  "demo_packet =
     (let p = \<lparr> deviceId = ''sensor'', timestamp = 1700000000, telemetryJson = ''{}'', hashHex = [],
                signature = [], pubKeyId = ''key'', transport = ''wifi'', batchCode = ''B1'' \<rparr>;
          h = Sha256Hex demo_hash (canonical p)
      in p\<lparr> hashHex := h, signature := h @ '':key'' \<rparr>)"

lemma demo_packet_ok: "packet_ok demo_service demo_packet"
proof -
  let ?h = "Sha256Hex demo_hash (canonical demo_packet)"
  have h: "IsHex64 ?h"
    by (rule IsHex64_Sha256Hex) (simp add: demo_hash_def)
  have p: "deviceId demo_packet = ''sensor''" "timestamp demo_packet = 1700000000"
    "telemetryJson demo_packet = ''{}''" "pubKeyId demo_packet = ''key''"
    "hashHex demo_packet = ?h" "signature demo_packet = ?h @ '':key''"
    by (simp_all add: demo_packet_def Let_def canonical_def)
  have "demo_verify demo_packet"
    using h by (simp add: demo_verify_def Verify_iff p IsHex64_def)
  with h show ?thesis by (simp add: packet_ok_def demo_service_def p)
qed

theorem GetMetricsSnapshot_mean_witness:
  "\<exists>results g m. gateway_run demo_service [(3, default_packet), (6, default_packet)]
        (new_gateway mem_empty mock_counter) = (results, g)
    \<and> GetMetricsSnapshot demo_service g = Inr m \<and> unat (snapAverageProcessingMs m) = 4"
proof -
  let ?run = "gateway_run demo_service [(3, default_packet), (6, default_packet)] (new_gateway mem_empty mock_counter)"
  obtain results g where run: "?run = (results, g)" by fastforce
  then have res: "returned results = [default_ingest_result\<lparr> message := ''deviceId is required'', processingMs := 3 \<rparr>,
      default_ingest_result\<lparr> message := ''deviceId is required'', processingMs := 6 \<rparr>]"
    by (auto simp: Ingest_def default_packet_def finish_simps)
  obtain m where m: "GetMetricsSnapshot demo_service g = Inr m"
    by (auto simp: GetMetricsSnapshot_def demo_service_def in_memory_repository_def)
  from GetMetricsSnapshot_mean [OF run _ _ m] have "unat (snapAverageProcessingMs m) = 9 div 2"
    by (simp add: res default_ingest_result_def flip: numeral_2_eq_2)
  with run m show ?thesis by auto
qed

section \<open>The gateway over the in-memory repository\<close>

definition memory_service :: "'k verify_build \<Rightarrow> public_key_map \<Rightarrow> 'c blockchain_client \<Rightarrow> hash_build
    \<Rightarrow> (in_memory, 'c) ingest_service" where
  "memory_service b keys chain h = \<lparr> repository = in_memory_repository,
     signatureVerifier = Verify b keys, blockchainClient = chain, hashBuild = h \<rparr>"

lemma memory_service_simps [simp]:
  "repository (memory_service b keys chain h) = in_memory_repository"
  "signatureVerifier (memory_service b keys chain h) = Verify b keys"
  "blockchainClient (memory_service b keys chain h) = chain"
  "hashBuild (memory_service b keys chain h) = h"
  by (simp_all add: memory_service_def)

interpretation mem_client: reliable_client in_memory_repository mem_inv mem_room records
  "\<lambda>p. p" "\<lambda>rc. rc" "\<lambda>k. k" "Verify b keys" "dom keys" "memory_service b keys chain h" for b keys chain h
  by unfold_locales (simp_all add: in_memory_repository_def)

text \<open>Saving advances the next id; the other calls and the chain leave it alone.\<close>

lemma mem_next_id:
  assumes "Ingest (memory_service b keys chain h) ms p g = (res, g')" and "mem_room (repositoryState g)"
  shows "unat (nextRecordId (repositoryState g')) \<le> Suc (unat (nextRecordId (repositoryState g)))"
proof (cases "packet_ok (memory_service b keys chain h) p")
  case False
  from Ingest_rejects [OF this, of ms g] assms show ?thesis by (auto simp: finish_simps)
next
  case True
  have "nextRecordId (repositoryState g') = nextRecordId (repositoryState g) + 1"
    using assms(1) [unfolded Ingest_two_phase [OF True] two_phase_def Let_def]
      nextRecordId_simps(1) [of p "repositoryState g"] nextRecordId_simps(2) nextRecordId_simps(3)
    by (auto simp: in_memory_repository_def finish_simps fail_after_save_def rollbackBestEffort_def
        apfst_def map_prod_def split: prod.splits sum.splits if_splits) (metis snd_conv)+
  with assms(2) unatSuc [of "nextRecordId (repositoryState g)"] show ?thesis
    by (simp add: mem_room_def add.commute)
qed


text \<open>The records the accepted results announce.\<close>

definition ledger_entry :: "u64 \<times> telemetry_packet \<Rightarrow> exn + ingest_result \<Rightarrow> telemetry_record list" where
  "ledger_entry call res =
     (case res of
        Inl _ \<Rightarrow> []
      | Inr r \<Rightarrow> if accepted r
               then [\<lparr> recordId = resultRecordId r, packet = snd call, receipt = resultReceipt r \<rparr>] else [])"

definition ledger :: "(u64 \<times> telemetry_packet) list \<Rightarrow> (exn + ingest_result) list \<Rightarrow> telemetry_record list" where
  "ledger calls results = concat (map (\<lambda>(call, res). ledger_entry call res) (zip calls results))"

lemma ledger_simps [simp]:
  "ledger [] results = []"
  "ledger (call # calls) (res # results) = ledger_entry call res @ ledger calls results"
  by (simp_all add: ledger_def)

lemma ledger_run:
  assumes "gateway_run (memory_service b keys chain h) calls g = (results, g')"
    and "mem_inv (repositoryState g)" "unat (nextRecordId (repositoryState g)) + length calls < 2 ^ 64"
  shows "mem_inv (repositoryState g') \<and> (\<forall>res \<in> set results. \<exists>r. res = Inr r) \<and>
    records (repositoryState g') = records (repositoryState g) @ ledger calls results \<and>
    (\<forall>r \<in> set (ledger calls results). receipt r \<noteq> None)"
  using assms
proof (induction calls arbitrary: g results)
  case (Cons call calls)
  obtain res g1 where one: "Ingest (memory_service b keys chain h) (fst call) (snd call) g = (res, g1)"
    by fastforce
  obtain rs g2 where rest: "gateway_run (memory_service b keys chain h) calls g1 = (rs, g2)" by fastforce
  with one Cons.prems(1) have eq: "results = res # rs" "g2 = g'" by auto
  have room: "mem_room (repositoryState g)" by (rule mem_room_unat) (use Cons.prems(3) in simp)
  from mem_client.Ingest_exact [OF Cons.prems(2) room one]
  have step: "mem_inv (repositoryState g1)" "\<exists>r. res = Inr r"
      "records (repositoryState g1) = records (repositoryState g) @ ledger_entry call res"
      "\<forall>r \<in> set (ledger_entry call res). receipt r \<noteq> None"
    by (auto simp: ledger_entry_def option.map_ident)
  from Cons.IH [OF rest [unfolded eq(2)] step(1)] mem_next_id [OF one room] Cons.prems(3) step
  show ?case by (auto simp: eq(1))
qed simp

text \<open>
  C4: the ledger of the in-memory gateway. For any build, key map and chain client and any
  sequence of fewer than \<open>2 ^ 64 - 1\<close> packets from an empty gateway, no call throws, and the
  repository holds, in order, exactly the packets whose result says accepted, each under the id
  and with the receipt of its result: no packet that was rejected at any stage leaves a record,
  none is stored without a receipt, and the ids are distinct.
\<close>
theorem memory_gateway_ledger:
  assumes "length calls < 2 ^ 64 - 1"
    and "gateway_run (memory_service b keys chain h) calls (new_gateway mem_empty c0) = (results, g)"
  shows "records (repositoryState g) = ledger calls results
    \<and> (\<forall>res \<in> set results. \<exists>r. res = Inr r)
    \<and> (\<forall>r \<in> set (records (repositoryState g)). receipt r \<noteq> None)
    \<and> distinct (ids (records (repositoryState g)))"
proof -
  have "mem_inv (repositoryState g) \<and> (\<forall>res \<in> set results. \<exists>r. res = Inr r) \<and>
    records (repositoryState g) = ledger calls results \<and> (\<forall>r \<in> set (ledger calls results). receipt r \<noteq> None)"
    using ledger_run [OF assms(2)] mem_inv_empty assms(1) by (simp add: new_gateway_def mem_empty_def)
  then show ?thesis using mem.distinct_ids [of "repositoryState g"] by auto
qed

lemma demo_service_memory:
  "demo_service = memory_service (PlainVerify :: unit verify_build) [''key'' \<mapsto> ''PEM''] (mock_client demo_hash 0) demo_hash"
  by (simp add: demo_service_def memory_service_def demo_verify_def)

theorem memory_gateway_ledger_witness:
  "\<exists>results g rc. gateway_run demo_service [(1, default_packet), (2, demo_packet)]
        (new_gateway mem_empty mock_counter) = (results, g)
    \<and> records (repositoryState g) = [\<lparr> recordId = 1, packet = demo_packet, receipt = Some rc \<rparr>]"
proof -
  let ?calls = "[(1, default_packet), (2, demo_packet)]"
  obtain results g where run: "gateway_run demo_service ?calls (new_gateway mem_empty mock_counter) = (results, g)"
    by fastforce
  from memory_gateway_ledger [OF _ run [unfolded demo_service_memory]]
  have led: "records (repositoryState g) = ledger ?calls results" by simp
  let ?g1 = "RecordRejected 1 (new_gateway mem_empty mock_counter)"
  have "Ingest demo_service 1 default_packet (new_gateway mem_empty mock_counter) =
      (Inr (default_ingest_result\<lparr> message := ''deviceId is required'', processingMs := 1 \<rparr>), ?g1)"
    by (simp add: Ingest_def default_packet_def finish_simps)
  moreover obtain rc g2 where "Ingest demo_service 2 demo_packet ?g1 =
      (Inr \<lparr> accepted = True, message = ''accepted'', resultRecordId = 1, resultReceipt = Some rc, processingMs = 2 \<rparr>, g2)"
    unfolding Ingest_two_phase [OF demo_packet_ok]
    by (simp add: two_phase_def demo_service_def in_memory_repository_def mem_Save_def mem_empty_def
        mem_AttachReceipt_def mock_client_def mock_SubmitHash_def Let_def new_gateway_def finish_simps)
  ultimately have "ledger ?calls results = [\<lparr> recordId = 1, packet = demo_packet, receipt = Some rc \<rparr>]"
    using run by (auto simp: ledger_entry_def default_ingest_result_def)
  with run led show ?thesis by auto
qed

section \<open>What an accepted packet proves\<close>

text \<open>
  C5: an accepted packet is bound to its hash, over any repository, verifier and chain client. It
  names its device, its time and its telemetry, and the hash it carries is the lower-case SHA-256
  of \<^verbatim>\<open>device|time|telemetry\<close>; so a packet whose hash has an upper-case digit is never
  accepted, although the format check allows such digits.
\<close>
theorem accepted_hash_binding:
  assumes "Ingest svc ms p g = (Inr r, g')" and "accepted r"
  shows "deviceId p \<noteq> [] \<and> timestamp p \<noteq> 0 \<and> telemetryJson p \<noteq> []
    \<and> hashHex p = Sha256Hex (hashBuild svc) (deviceId p @ ''|'' @ u64_to_string (timestamp p) @ ''|'' @ telemetryJson p)
    \<and> map to_lower (hashHex p) = hashHex p
    \<and> signatureVerifier svc p"
proof -
  have ok: "packet_ok svc p"
    using assms Ingest_rejects [of svc p ms g] by (cases "packet_ok svc p") (auto simp: finish_simps)
  then show ?thesis
    using lower_hex_to_lower [OF Sha256Hex_lower_hex [of "hashBuild svc" "canonical p"]]
    by (simp add: packet_ok_def canonical_def)
qed

theorem accepted_hash_binding_witness:
  "demo_verify demo_packet \<and> map to_lower (hashHex demo_packet) = hashHex demo_packet"
proof -
  obtain r g' where "Ingest demo_service 2 demo_packet (new_gateway mem_empty mock_counter) = (Inr r, g')" "accepted r"
    unfolding Ingest_two_phase [OF demo_packet_ok]
    by (simp add: two_phase_def demo_service_def in_memory_repository_def mem_Save_def mem_empty_def
        mem_AttachReceipt_def mock_client_def mock_SubmitHash_def Let_def new_gateway_def finish_simps)
  from accepted_hash_binding [OF this] show ?thesis unfolding demo_service_def by (elim conjE) simp
qed

text \<open>The result of the in-memory gateway reads the identity of the packet only.\<close>

lemma two_phase_memory_result:
  "fst (two_phase (memory_service b keys chain h) ms p g) =
     (let r = default_ingest_result\<lparr> resultRecordId := nextRecordId (repositoryState g), processingMs := ms \<rparr>
      in case chain_answer (memory_service b keys chain h) p (chainState g) of
           Inl e \<Rightarrow> Inr (r\<lparr> message := ''blockchain submit failed: '' @ exn_text e \<rparr>)
         | Inr rc \<Rightarrow> Inr (r\<lparr> accepted := True, message := ''accepted'', resultReceipt := Some rc \<rparr>))"
  by (auto simp: two_phase_def chain_answer_def in_memory_repository_def mem_Save_def mem_AttachReceipt_def
      mem_Delete_def fail_after_save_def rollbackBestEffort_def finish_simps Let_def split: sum.split prod.split)

text \<open>
  The batch code and the transport of a packet are outside both the hash and the signature.
  Replacing them by anything leaves the verdict, the result and the chain call of the in-memory
  gateway as they are; only the stored record differs, in those two fields.
\<close>
lemma batch_not_authenticated:
  "packet_ok (memory_service b keys chain h) (p\<lparr> batchCode := c, transport := t \<rparr>) =
     packet_ok (memory_service b keys chain h) p
   \<and> fst (Ingest (memory_service b keys chain h) ms (p\<lparr> batchCode := c, transport := t \<rparr>) g) =
     fst (Ingest (memory_service b keys chain h) ms p g)"
proof -
  let ?q = "p\<lparr> batchCode := c, transport := t \<rparr>" and ?svc = "memory_service b keys chain h"
  have ok: "packet_ok ?svc ?q = packet_ok ?svc p"
    by (simp add: packet_ok_def canonical_def basic.verify_unbound)
  have ans: "chain_answer ?svc ?q = chain_answer ?svc p" by (simp add: chain_answer_def fun_eq_iff)
  have "fst (Ingest ?svc ms ?q g) = fst (Ingest ?svc ms p g)"
  proof (cases "packet_ok ?svc p")
    case True
    then show ?thesis by (simp add: Ingest_two_phase ok two_phase_memory_result ans)
  next
    case False
    have v: "signatureVerifier ?svc ?q = signatureVerifier ?svc p" by (simp add: basic.verify_unbound)
    have can: "canonical ?q = canonical p" by (simp add: canonical_def)
    from False v can show ?thesis
      unfolding Ingest_def packet_ok_def Let_def finish_simps by (simp split: if_split) blast
  qed
  with ok show ?thesis by blast
qed

section \<open>The hash input determines the packet\<close>

text \<open>
  The text that is hashed has no length fields, so its parts must be recovered from the text
  alone. A parsed device id holds no quote and a parsed telemetry text is one braced object; if
  two readings differed, one object would end inside the other with an open brace before it.
\<close>

lemma outside_quote_free:
  "no_quote w \<Longrightarrow> outside False e (w @ CHR ''|'' # s) = outside False e (w @ ''|'') @ outside False False s"
  by (induction w arbitrary: e) auto

lemma net_braces_append: "net_braces (a @ b) = net_braces a + net_braces b"
  by (simp add: net_braces_def)

lemma object_suffix:
  assumes eq: "head @ CHR ''|'' # j = X @ j'" and head: "no_quote head"
    and j: "json_object j" and j': "json_object j'" and longer: "length j < length j'"
  shows False
proof -
  obtain w where w: "j' = w @ CHR ''|'' # j" and hd: "\<exists>y. head = y @ w"
  proof -
    from eq obtain us where us: "head = X @ us \<and> us @ CHR ''|'' # j = j' \<or> head @ us = X \<and> CHR ''|'' # j = us @ j'"
      unfolding append_eq_append_conv2 by blast
    show thesis
    proof (cases "head = X @ us \<and> us @ CHR ''|'' # j = j'")
      case True
      then show thesis by (intro that [of us]) auto
    next
      case False
      with us have "CHR ''|'' # j = us @ j'" by blast
      with longer have "us = []" by (cases us) auto
      with \<open>CHR ''|'' # j = us @ j'\<close> show thesis by (intro that [of "[]"]) auto
    qed
  qed
  then have nq: "no_quote w" using head by fastforce
  have "prefix (w @ ''|'') j'" "w @ ''|'' \<noteq> j'" using w j by (auto simp: json_object_def)
  then have "0 < brace_depth (w @ ''|'')" using json_object_balance [OF j'] by blast
  moreover have "brace_depth j' = brace_depth (w @ ''|'') + brace_depth j"
    unfolding brace_depth_def w outside_quote_free [OF nq, of False j] by (rule net_braces_append)
  moreover have "brace_depth j = 0" "brace_depth j' = 0"
    using json_object_balance [OF j] json_object_balance [OF j'] by blast+
  ultimately show False by simp
qed

lemma canonical_inject:
  assumes eq: "canonical p = canonical q" and p: "no_quote (deviceId p)" "json_object (telemetryJson p)"
    and q: "no_quote (deviceId q)" "json_object (telemetryJson q)"
  shows "deviceId p = deviceId q \<and> timestamp p = timestamp q \<and> telemetryJson p = telemetryJson q"
proof -
  let ?h = "\<lambda>p. deviceId p @ CHR ''|'' # u64_to_string (timestamp p)"
  have eq': "?h p @ CHR ''|'' # telemetryJson p = ?h q @ CHR ''|'' # telemetryJson q"
    using eq by (simp add: canonical_def)
  have nq: "no_quote (?h p)" "no_quote (?h q)" using p(1) q(1) u64_to_string_digits by (auto simp: is_digit_def)
  have "length (telemetryJson p) = length (telemetryJson q)"
  proof (rule ccontr)
    assume "length (telemetryJson p) \<noteq> length (telemetryJson q)"
    then consider "length (telemetryJson p) < length (telemetryJson q)"
      | "length (telemetryJson q) < length (telemetryJson p)" by linarith
    then show False
    proof cases
      case 1
      from object_suffix [of _ _ "?h q @ ''|''", OF _ nq(1) p(2) q(2) 1] eq' show False by simp
    next
      case 2
      from object_suffix [of _ _ "?h p @ ''|''", OF _ nq(2) q(2) p(2) 2] eq' show False by simp
    qed
  qed
  then have t: "telemetryJson p = telemetryJson q" and h: "?h p = ?h q"
    using eq' append_eq_append_conv [of "?h p @ ''|''" "?h q @ ''|''" "telemetryJson p" "telemetryJson q"]
    by simp_all
  from split_last_bar [OF h no_bar_u64 no_bar_u64] t show ?thesis by simp
qed

lemma ExtractStringValue_no_quote: "ExtractStringValue json key = Some v \<Longrightarrow> no_quote v"
  using first_at_SomeD string_value_at_no_quote by (fastforce simp: ExtractStringValue_scan)

lemma parsed_packet:
  assumes "ok (ParseTelemetryPacketJson s)"
  defines "p \<equiv> parsedPacket (ParseTelemetryPacketJson s)"
  shows "no_quote (deviceId p) \<and> json_object (telemetryJson p)"
  using assms(1) unfolding p_def ParseTelemetryPacketJson_def
  by (auto simp: parse_failure_def dest: ExtractStringValue_no_quote ExtractObjectValue_json_object
      split: option.splits)

text \<open>
  C11: the text whose hash is checked determines what it stands for. If the packets parsed from
  any two request bodies have the same hash input, they have the same device, the same timestamp
  and the same telemetry text: a device id with bars or digits in it cannot make one packet pass
  for another.
\<close>
theorem parsed_hash_input_unambiguous:
  assumes "ok (ParseTelemetryPacketJson a)" and "ok (ParseTelemetryPacketJson b)"
    and "canonical (parsedPacket (ParseTelemetryPacketJson a)) = canonical (parsedPacket (ParseTelemetryPacketJson b))"
  shows "deviceId (parsedPacket (ParseTelemetryPacketJson a)) = deviceId (parsedPacket (ParseTelemetryPacketJson b))
    \<and> timestamp (parsedPacket (ParseTelemetryPacketJson a)) = timestamp (parsedPacket (ParseTelemetryPacketJson b))
    \<and> telemetryJson (parsedPacket (ParseTelemetryPacketJson a)) = telemetryJson (parsedPacket (ParseTelemetryPacketJson b))"
  using canonical_inject [OF assms(3)] parsed_packet [OF assms(1)] parsed_packet [OF assms(2)] by simp

theorem parsed_hash_input_unambiguous_witness:
  "let a = request_json ''n1'' 7 ''{}'' ''aa'' ''s1'' None None None;
       b = request_json ''n1'' 7 ''{}'' ''bb'' ''s2'' None None (Some ''B1'')
   in ok (ParseTelemetryPacketJson a) \<and> ok (ParseTelemetryPacketJson b) \<and>
     telemetryJson (parsedPacket (ParseTelemetryPacketJson a)) = telemetryJson (parsedPacket (ParseTelemetryPacketJson b))"
proof -
  have ab: "ParseTelemetryPacketJson (request_json ''n1'' 7 ''{}'' ''aa'' ''s1'' None None None) =
      \<lparr> ok = True, parsedPacket = \<lparr> deviceId = ''n1'', timestamp = 7, telemetryJson = ''{}'', hashHex = ''aa'',
        signature = ''s1'', pubKeyId = ''default-pubkey'', transport = ''wifi'', batchCode = [] \<rparr>, parseError = [] \<rparr>"
    "ParseTelemetryPacketJson (request_json ''n1'' 7 ''{}'' ''bb'' ''s2'' None None (Some ''B1'')) =
      \<lparr> ok = True, parsedPacket = \<lparr> deviceId = ''n1'', timestamp = 7, telemetryJson = ''{}'', hashHex = ''bb'',
        signature = ''s2'', pubKeyId = ''default-pubkey'', transport = ''wifi'', batchCode = ''B1'' \<rparr>, parseError = [] \<rparr>"
    by (subst parse_request;
        simp add: clean_object_def json_object_def late_keys_def quote_free_opt_def quoted_def value_or_def)+
  show ?thesis
    unfolding Let_def
    by (intro conjI parsed_hash_input_unambiguous [THEN conjunct2, THEN conjunct2]) (simp_all only: ab, simp_all add: canonical_def)
qed

end
