(* ===== verification/Http_Text.thy ===== *)
theory Http_Text
  imports Prelude
begin

text \<open>
  The line structure of the HTTP messages that the server and the RPC client write and read:
  lines ended by CR LF, an empty line, then the body.
\<close>

abbreviation crlf :: string where
  "crlf \<equiv> [CHR 0x0D, CHR 0x0A]"

definition http_lines :: "string list \<Rightarrow> string" where
  "http_lines ls = concat (map (\<lambda>l. l @ crlf) ls)"

definition http_message :: "string list \<Rightarrow> string \<Rightarrow> string" where
  "http_message ls body = http_lines ls @ crlf @ body"

definition http_line :: "string \<Rightarrow> bool" where
  "http_line l \<longleftrightarrow> l \<noteq> [] \<and> CHR 0x0D \<notin> set l"

lemma http_lines_simps [simp]:
  "http_lines [] = []" "http_lines (l # ls) = l @ CHR 0x0D # CHR 0x0A # http_lines ls"
  by (simp_all add: http_lines_def)

lemma http_lines_append: "http_lines (ls @ ks) = http_lines ls @ http_lines ks"
  by (simp add: http_lines_def)

lemma http_line_Cons: "http_line l \<Longrightarrow> \<exists>c cs. l = c # cs \<and> c \<noteq> CHR 0x0D"
  by (cases l) (auto simp: http_line_def)

text \<open>The first empty line of a message is the one before its body.\<close>

lemma find_header_end:
  assumes "ls \<noteq> []" "\<forall>l \<in> set ls. http_line l"
  shows "str_find (crlf @ crlf) (http_message ls body) = Some (length (http_lines ls) - 2)"
  using assms
proof (induction ls)
  case (Cons l ls)
  from Cons.prems have l: "CHR 0x0D \<notin> set l" by (simp add: http_line_def)
  have skip: "str_find (crlf @ crlf) (http_message (l # ls) body) =
      map_option (\<lambda>k. length l + k) (str_find (crlf @ crlf) (crlf @ http_message ls body))"
    using str_find_skip_hd [of "crlf @ crlf" l "crlf @ http_message ls body"] l by (simp add: http_message_def)
  show ?case
  proof (cases "ls = []")
    case True
    then show ?thesis unfolding skip by (simp add: http_message_def)
  next
    case False
    then obtain m ms where ms: "ls = m # ms" by (cases ls) auto
    with Cons.prems have "http_line m" by simp
    then obtain c cs where m: "m = c # cs" "c \<noteq> CHR 0x0D" using http_line_Cons by blast
    obtain r where r: "http_message ls body = c # r" using ms m by (simp add: http_message_def)
    have ih: "str_find (crlf @ crlf) (http_message ls body) = Some (length (http_lines ls) - 2)"
      using False Cons.prems by (intro Cons.IH) auto
    have "str_find (crlf @ crlf) (crlf @ http_message ls body) =
        map_option (\<lambda>k. 2 + k) (str_find (crlf @ crlf) (http_message ls body))"
      using m(2) [symmetric] by (simp add: r option.map_comp comp_def)
    moreover have "2 \<le> length (http_lines ls)" using ms by simp
    ultimately show ?thesis unfolding skip ih by simp
  qed
qed simp

lemma find_line_end:
  assumes "http_line l"
  shows "str_find crlf (http_message (l # ls) body) = Some (length l)"
proof -
  have "CHR 0x0D \<notin> set l" using assms by (simp add: http_line_def)
  from str_find_skip_hd [of crlf l, simplified, OF this] show ?thesis by (simp add: http_message_def)
qed

lemma drop_http_lines: "drop (length (http_lines ls) - 2 + 4) (http_message ls body) = body"
  if "ls \<noteq> []"
proof -
  have "2 \<le> length (http_lines ls)" using that by (cases ls) auto
  then have "length (http_lines ls) - 2 + 4 = length (http_lines ls @ crlf)" by simp
  then show ?thesis by (simp only: http_message_def append_assoc [symmetric] drop_append) simp
qed

lemma http_line_size [simp]: "CHR 0x0D \<notin> set (size_to_string n)"
  using dec_digits_all_digits [of "CHR 0x0D" "int n"] by (auto simp: size_to_string_def is_digit_def)

end
