(* ===== verification/Ethereum_Client.thy ===== *)
theory Ethereum_Client
  imports Blockchain_Client Http_Text
begin

text \<open>
  \<^verbatim>\<open>src/blockchain/ethereum_rpc_blockchain_client.cpp\<close>: the JSON-RPC client over a plain
  HTTP connection. The system calls of one HTTP exchange are a parameter: what
  \<^verbatim>\<open>getaddrinfo\<close> gives for a host and a port, the socket and the result of
  \<^verbatim>\<open>connect\<close> for each address, the result of \<^verbatim>\<open>send\<close>, and the blocks that
  \<^verbatim>\<open>recv\<close> returns before it returns 0 or an error, the last two as functions of the request
  sent. The clocks are parameters of the environment of one submission.
\<close>

section \<open>URLs\<close>

record parsed_http_url =
  urlHost :: string
  urlPort :: string
  urlPath :: string

definition ParseHttpUrl :: "string \<Rightarrow> parsed_http_url option" where
  "ParseHttpUrl url =
     (if \<not> starts_with url ''http://'' then None
      else
        (let address = drop (length ''http://'') url;
             slashPos = str_find ''/'' address;
             hostPort = (case slashPos of None \<Rightarrow> address | Some i \<Rightarrow> take i address);
             path = (case slashPos of None \<Rightarrow> ''/'' | Some i \<Rightarrow> drop i address)
         in if hostPort = [] then None
            else case str_rfind (CHR '':'') hostPort of
                   None \<Rightarrow> Some \<lparr> urlHost = hostPort, urlPort = ''80'', urlPath = path \<rparr>
                 | Some colonPos \<Rightarrow>
                     (let host = take colonPos hostPort; port = drop (colonPos + 1) hostPort
                      in if host = [] \<or> port = [] then None
                         else Some \<lparr> urlHost = host, urlPort = port, urlPath = path \<rparr>)))"

section \<open>One HTTP exchange\<close>

record exchange =
  getaddrinfo :: "string \<Rightarrow> string \<Rightarrow> int \<times> (int \<times> int) list"
  send_result :: "string \<Rightarrow> int"
  recv_blocks :: "string \<Rightarrow> string list"

text \<open>\<^verbatim>\<open>c_str()\<close>: the text up to its first NUL.\<close>

definition c_str :: "string \<Rightarrow> string" where
  "c_str s = takeWhile (\<lambda>c. c \<noteq> CHR 0x00) s"

text \<open>The loop over the addresses: the first socket that connects, or -1.\<close>

fun connect_first :: "(int \<times> int) list \<Rightarrow> int" where
  "connect_first [] = -1"
| "connect_first ((fd, connected) # addrs) =
     (if fd < 0 then connect_first addrs else if connected = 0 then fd else connect_first addrs)"

definition ReadSocketFully :: "string list \<Rightarrow> string" where
  "ReadSocketFully blocks = concat blocks"

definition http_request_text :: "parsed_http_url \<Rightarrow> string \<Rightarrow> string" where
  "http_request_text url payload =
     ''POST '' @ urlPath url @ '' HTTP/1.1'' @ crlf @
     ''Host: '' @ urlHost url @ crlf @
     ''Content-Type: application/json'' @ crlf @
     ''Content-Length: '' @ size_to_string (length payload) @ crlf @
     ''Connection: close'' @ crlf @ crlf @
     payload"

definition status_pattern :: pattern where
  "status_pattern =
     re_lit ''HTTP/1.'' @ re_one (OneOf ''01'') @ re_plus SpaceClass @ cap_times DigitClass 3"

definition HttpPostJson :: "exchange \<Rightarrow> string \<Rightarrow> string \<Rightarrow> exn + string" where
  "HttpPostJson net url payload =
     (case ParseHttpUrl url of
        None \<Rightarrow> Inl (StdException ''rpc url must start with http://'')
      | Some parsedUrl \<Rightarrow>
          (let (resolveCode, result) = getaddrinfo net (c_str (urlHost parsedUrl)) (c_str (urlPort parsedUrl))
           in if resolveCode \<noteq> 0 \<or> result = [] then Inl (StdException ''cannot resolve rpc host'')
              else if connect_first result < 0 then Inl (StdException ''cannot connect to rpc endpoint'')
              else
                (let requestText = http_request_text parsedUrl payload;
                     sent = send_result net requestText
                 in if sent < 0 \<or> sent \<noteq> int (length requestText)
                    then Inl (StdException ''failed to send rpc request'')
                    else
                      (let response = ReadSocketFully (recv_blocks net requestText)
                       in case str_find (crlf @ crlf) response of
                            None \<Rightarrow> Inl (StdException ''invalid rpc response'')
                          | Some headerEnd \<Rightarrow>
                              (let statusLine = (case str_find crlf response of
                                                   None \<Rightarrow> response | Some i \<Rightarrow> take i response)
                               in case regex_search status_pattern statusLine of
                                    Some [digits] \<Rightarrow>
                                      (let statusCode = digits_value 10 digits;
                                           body = drop (headerEnd + 4) response
                                       in if statusCode < 200 \<or> statusCode \<ge> 300
                                          then Inl (StdException (''rpc http status '' @ dec_digits statusCode))
                                          else Inr body)
                                  | _ \<Rightarrow> Inl (StdException ''invalid rpc status line''))))))"

section \<open>Reading the replies\<close>

definition json_string_pattern :: "string \<Rightarrow> pattern" where
  "json_string_pattern fieldName =
     re_lit (quoted fieldName) @ re_star SpaceClass @ re_lit '':'' @ re_star SpaceClass @
     re_lit ''\"'' @ cap_plus (NoneOf ''\"'') @ re_lit ''\"''"

definition ExtractJsonStringField :: "string \<Rightarrow> string \<Rightarrow> string option" where
  "ExtractJsonStringField json fieldName = group1 (regex_search (json_string_pattern fieldName) json)"

definition ParseHexNumber :: "string \<Rightarrow> u64 option" where
  "ParseHexNumber hexValue =
     (if hexValue = [] then None
      else
        (let text = (if starts_with hexValue ''0x'' \<or> starts_with hexValue ''0X'' then drop 2 hexValue else hexValue)
         in if text = [] then None
            else case stoull text 16 of Inr n \<Rightarrow> Some n | Inl _ \<Rightarrow> None))"

definition ExtractRpcError :: "string \<Rightarrow> string" where
  "ExtractRpcError json = value_or (ExtractJsonStringField json ''message'') ''unknown rpc error''"

definition IsReceiptNull :: "string \<Rightarrow> bool" where
  "IsReceiptNull body =
     (regex_search (re_lit (quoted ''result'') @ re_star SpaceClass @ re_lit '':'' @ re_star SpaceClass @
        re_lit ''null'') body \<noteq> None)"

definition is_rpc_error :: "string \<Rightarrow> bool" where
  "is_rpc_error response = (str_find (quoted ''error'') response \<noteq> None)"

section \<open>Submission\<close>

record ethereum_config =
  rpcUrl :: string
  fromAddress :: string
  toAddress :: string
  pollIntervalMs :: u32
  maxWaitMs :: u32

definition default_config :: ethereum_config where
  "default_config = \<lparr> rpcUrl = ''http://127.0.0.1:8545'', fromAddress = [], toAddress = [],
     pollIntervalMs = 500, maxWaitMs = 15000 \<rparr>"

text \<open>The constructor.\<close>

definition ethereum_client_config :: "ethereum_config \<Rightarrow> ethereum_config" where
  "ethereum_client_config config =
     (if toAddress config = [] then config\<lparr> toAddress := fromAddress config \<rparr> else config)"

text \<open>
  What surrounds one submission: the exchange that sends the transaction, the exchange of the
  \<open>k\<close>-th poll, the milliseconds of the steady clock between the start of the polling and the
  \<open>k\<close>-th reply, and the wall clock.
\<close>

record eth_env =
  sendExchange :: exchange
  pollExchange :: "nat \<Rightarrow> exchange"
  pollElapsed :: "nat \<Rightarrow> int"
  utcNow :: int

definition sendTxPayload :: "ethereum_config \<Rightarrow> string \<Rightarrow> string" where
  "sendTxPayload config hash =
     ''{\"jsonrpc\":\"2.0\",\"method\":\"eth_sendTransaction\",\"params\":[{\"from\":\"'' @
     JsonEscape (fromAddress config) @ ''\",\"to\":\"'' @ JsonEscape (toAddress config) @
     ''\",\"data\":\"'' @ JsonEscape (''0x'' @ hash) @ ''\"}],\"id\":1}''"

definition receiptPayload :: "string \<Rightarrow> string" where
  "receiptPayload tx =
     ''{\"jsonrpc\":\"2.0\",\"method\":\"eth_getTransactionReceipt\",\"params\":[\"'' @
     JsonEscape tx @ ''\"],\"id\":2}''"

text \<open>The \<^verbatim>\<open>while (true)\<close>, from the \<open>k\<close>-th poll; \<open>None\<close> when it never ends.\<close>

partial_function (option) poll_receipt ::
  "ethereum_config \<Rightarrow> eth_env \<Rightarrow> blockchain_receipt \<Rightarrow> nat \<Rightarrow> (exn + blockchain_receipt) option" where
  "poll_receipt config env rc k =
     (case HttpPostJson (pollExchange env k) (rpcUrl config) (receiptPayload (txHash rc)) of
        Inl e \<Rightarrow> Some (Inl e)
      | Inr response \<Rightarrow>
          if is_rpc_error response then Some (Inl (StdException (ExtractRpcError response)))
          else if \<not> IsReceiptNull response then
            Some (Inr (case ExtractJsonStringField response ''blockNumber'' of
                         Some blockHex \<Rightarrow> rc\<lparr> blockHeight := value_or (ParseHexNumber blockHex) 0 \<rparr>
                       | None \<Rightarrow> rc))
          else if uint (maxWaitMs config) \<le> pollElapsed env k then Some (Inr rc)
          else poll_receipt config env rc (Suc k))"

definition eth_SubmitHash :: "ethereum_config \<Rightarrow> eth_env \<Rightarrow> string \<Rightarrow> (exn + blockchain_receipt) option" where
  "eth_SubmitHash config env hash =
     (if fromAddress config = [] \<or> toAddress config = []
      then Some (Inl (StdException ''from/to address not configured''))
      else case HttpPostJson (sendExchange env) (rpcUrl config) (sendTxPayload config hash) of
        Inl e \<Rightarrow> Some (Inl e)
      | Inr sendTxResponse \<Rightarrow>
          if is_rpc_error sendTxResponse then Some (Inl (StdException (ExtractRpcError sendTxResponse)))
          else case ExtractJsonStringField sendTxResponse ''result'' of
            None \<Rightarrow> Some (Inl (StdException ''missing transaction hash in rpc response''))
          | Some tx \<Rightarrow>
              if tx = [] then Some (Inl (StdException ''missing transaction hash in rpc response''))
              else poll_receipt config env
                     \<lparr> txHash = tx, blockHeight = 0, submittedAtIso8601 = CurrentUtcIso8601 (utcNow env) \<rparr> 0)"

section \<open>Replies\<close>

lemma match_status:
  assumes "is_digit a" "is_digit b" "is_digit c"
  shows "regex_search status_pattern (''HTTP/1.1 '' @ [a, b, c] @ phrase) = Some [[a, b, c]]"
proof (rule regex_search_here)
  have "\<not> is_space a" using assms(1) by (rule digit_not_space)
  have blank: "is_space (CHR '' '')" by (simp add: is_space_def)
  have run: "3 \<le> class_run DigitClass (a # b # c # phrase)" using assms by (simp add: class_run_Cons)
  then have m: "match_here [Piece DigitClass 3 (Some 3) True] (a # b # c # phrase) = Some [[a, b, c]]"
    by (simp add: min_absorb1 eval_nat_numeral)
  have "starts_outside [Piece DigitClass 3 (Some 3) True] SpaceClass"
    by (auto simp: digit_not_space)
  note greedy = match_here_greedy [OF this, of "Suc 0" False]
  show "match_here status_pattern (''HTTP/1.1 '' @ [a, b, c] @ phrase) = Some [[a, b, c]]"
    unfolding status_pattern_def match_here_lit using \<open>\<not> is_space a\<close> blank
    by (simp add: re_one_def re_plus_def cap_times_def match_here_one greedy m class_run_Cons
        del: match_here.simps)
qed

text \<open>A well-formed reply of three status digits: its body for 2xx, an error otherwise.\<close>

lemma HttpPostJson_reply:
  assumes url: "ParseHttpUrl url = Some u"
    and net: "getaddrinfo net (c_str (urlHost u)) (c_str (urlPort u)) = (0, addrs)" "addrs \<noteq> []"
      "0 \<le> connect_first addrs"
      "send_result net (http_request_text u payload) = int (length (http_request_text u payload))"
    and reply: "concat (recv_blocks net (http_request_text u payload)) =
      http_message ((''HTTP/1.1 '' @ [a, b, c] @ phrase) # headers) body"
    and digits: "is_digit a" "is_digit b" "is_digit c"
    and lines: "CHR 0x0D \<notin> set phrase" "\<forall>l \<in> set headers. http_line l"
  shows "HttpPostJson net url payload =
    (let status = digits_value 10 [a, b, c] in
     if 200 \<le> status \<and> status < 300 then Inr body
     else Inl (StdException (''rpc http status '' @ dec_digits status)))"
proof -
  let ?l = "''HTTP/1.1 '' @ [a, b, c] @ phrase" and ?r = "http_message ((''HTTP/1.1 '' @ [a, b, c] @ phrase) # headers) body"
  have l: "http_line ?l" using digits lines(1) by (auto simp: http_line_def is_digit_def)
  then have all: "\<forall>l \<in> set (?l # headers). http_line l" using lines(2) by simp
  have line: "take (length ?l) ?r = ?l" by (simp add: http_message_def)
  note ends = find_header_end [OF _ all, of body, simplified] find_line_end [OF l, of headers body]
  have conn: "\<not> connect_first addrs < 0" using net(3) by simp
  show ?thesis
    by (simp only: conn HttpPostJson_def url net(1,2,4) ReadSocketFully_def reply Let_def option.case prod.case
        ends find_header_end [OF _ all, of body] list.distinct line match_status [OF digits] drop_http_lines list.case
        simp_thms if_False not_less refl not_le) auto
qed

section \<open>URLs and numbers\<close>

lemma str_rfind_None: "c \<notin> set s \<Longrightarrow> str_rfind c s = None"
  by (induction s) auto

lemma str_rfind_split: "c \<notin> set b \<Longrightarrow> str_rfind c (a @ c # b) = Some (length a)"
  by (induction a) (auto simp: str_rfind_None)

text \<open>
  The endpoint of an RPC url. For a host and a port without slash (the port without colon),
  both nonempty, the parser gives back host, port and path of \<^verbatim>\<open>http://host:port/path\<close>, and
  the path defaults to a single slash.
\<close>
lemma ParseHttpUrl_parts:
  assumes "host \<noteq> []" "CHR ''/'' \<notin> set host" "port \<noteq> []" "CHR ''/'' \<notin> set port" "CHR '':'' \<notin> set port"
  shows "ParseHttpUrl (''http://'' @ host @ '':'' @ port @ ''/'' @ path) =
      Some \<lparr> urlHost = host, urlPort = port, urlPath = ''/'' @ path \<rparr>
    \<and> ParseHttpUrl (''http://'' @ host @ '':'' @ port) =
      Some \<lparr> urlHost = host, urlPort = port, urlPath = ''/'' \<rparr>"
proof -
  have slash: "str_find ''/'' (host @ CHR '':'' # port @ CHR ''/'' # path) = Some (length (host @ CHR '':'' # port))"
    using assms str_find_skip_hd [of "''/''" "host @ CHR '':'' # port" "CHR ''/'' # path"] by simp
  have none: "str_find ''/'' (host @ CHR '':'' # port) = None"
    using assms by (intro str_find_none_hd) auto
  have colon: "str_rfind (CHR '':'') (host @ CHR '':'' # port) = Some (length host)"
    using assms(5) by (rule str_rfind_split)
  show ?thesis
    using assms slash none colon by (simp add: ParseHttpUrl_def starts_with_def Let_def)
qed

lemma ParseHttpUrl_parts_witness:
  "ParseHttpUrl ''http://127.0.0.1:8545/rpc'' = Some \<lparr> urlHost = ''127.0.0.1'', urlPort = ''8545'', urlPath = ''/rpc'' \<rparr>"
  using ParseHttpUrl_parts [of "''127.0.0.1''" "''8545''" "''rpc''"] by simp

lemma digit_value_hex_char: "n < 16 \<Longrightarrow> digit_value (hex_char n) = int n"
  by (rule all_nibbles [where P = "\<lambda>n. digit_value (hex_char n) = int n"])
     (simp_all add: upt_rec digit_value_def hex_char_def hex_alphabet_def is_digit_def)

lemma digits_value_hex_digits: "0 \<le> n \<Longrightarrow> digits_value 16 (hex_digits n) = n"
proof (induction n rule: hex_digits.induct)
  case (1 n)
  show ?case
  proof (cases "n < 16")
    case True
    with 1 show ?thesis by (subst hex_digits.simps) (simp add: digits_value_def digit_value_hex_char nat_less_iff)
  next
    case False
    moreover have "digit_value (hex_char (nat (n mod 16))) = n mod 16"
      by (subst digit_value_hex_char) (simp_all add: nat_less_iff)
    ultimately show ?thesis using 1 by (subst hex_digits.simps) (simp add: digits_value_snoc)
  qed
qed

lemma hex_digits_nonempty [simp]: "hex_digits n \<noteq> []"
  by (subst hex_digits.simps) simp

text \<open>
  Block numbers. The hexadecimal quantity of any 64-bit number, with the prefix
  \<^verbatim>\<open>0x\<close> of the JSON-RPC encoding, is read back as that number.
\<close>
lemma ParseHexNumber_quantity: "ParseHexNumber (''0x'' @ hex_digits (uint w)) = Some w"
proof -
  have "digits_value 16 (hex_digits (uint w)) = uint w" by (simp add: digits_value_hex_digits)
  moreover have "uint w < 2 ^ 64" using unsigned_less [of w, where ?'a = int] by simp
  ultimately have "stoull (hex_digits (uint w)) 16 = Inr w"
    using stoull_hex_value [of "hex_digits (uint w)"] by (simp add: hex_digits_lower_hex)
  then show ?thesis by (simp add: ParseHexNumber_def starts_with_def)
qed

section \<open>Polling\<close>

text \<open>The \<open>k\<close>-th poll is answered with a null receipt before the time is up.\<close>

definition poll_pending :: "ethereum_config \<Rightarrow> eth_env \<Rightarrow> string \<Rightarrow> nat \<Rightarrow> bool" where
  "poll_pending config env tx k \<longleftrightarrow>
     (\<exists>response. HttpPostJson (pollExchange env k) (rpcUrl config) (receiptPayload tx) = Inr response \<and>
        \<not> is_rpc_error response \<and> IsReceiptNull response)"

definition poll_waits :: "ethereum_config \<Rightarrow> eth_env \<Rightarrow> string \<Rightarrow> nat \<Rightarrow> bool" where
  "poll_waits config env tx k \<longleftrightarrow> poll_pending config env tx k \<and> pollElapsed env k < uint (maxWaitMs config)"

lemma poll_receipt_waits:
  "poll_waits config env (txHash rc) k \<Longrightarrow> poll_receipt config env rc k = poll_receipt config env rc (Suc k)"
  by (subst poll_receipt.simps) (auto simp: poll_waits_def poll_pending_def)

lemma poll_receipt_skip:
  "\<forall>j. k \<le> j \<and> j < n \<longrightarrow> poll_waits config env (txHash rc) j \<Longrightarrow> k \<le> n \<Longrightarrow>
     poll_receipt config env rc k = poll_receipt config env rc n"
proof (induction "n - k" arbitrary: k)
  case (Suc m)
  then have "poll_receipt config env rc k = poll_receipt config env rc (Suc k)"
    by (intro poll_receipt_waits) simp
  with Suc show ?case by simp
qed simp

text \<open>A submission that returns has seen a poll that does not wait.\<close>

lemma poll_receipt_ends:
  "poll_receipt config env rc k = Some r \<Longrightarrow> \<exists>n. \<not> poll_waits config env (txHash rc) n"
proof (rule poll_receipt.raw_induct [where P = "\<lambda>config env rc k r. \<exists>n. \<not> poll_waits config env (txHash rc) n"])
  fix poll config env rc k r
  assume ih: "\<And>config env rc k r. poll config env rc k = Some r \<Longrightarrow> \<exists>n. \<not> poll_waits config env (txHash rc) n"
    and body: "(case HttpPostJson (pollExchange env k) (rpcUrl config) (receiptPayload (txHash rc)) of
        Inl e \<Rightarrow> Some (Inl e)
      | Inr response \<Rightarrow>
          if is_rpc_error response then Some (Inl (StdException (ExtractRpcError response)))
          else if \<not> IsReceiptNull response then
            Some (Inr (case ExtractJsonStringField response ''blockNumber'' of
                         None \<Rightarrow> rc
                       | Some blockHex \<Rightarrow> rc\<lparr> blockHeight := value_or (ParseHexNumber blockHex) 0 \<rparr>))
          else if uint (maxWaitMs config) \<le> pollElapsed env k then Some (Inr rc)
          else poll config env rc (Suc k)) = Some r"
  show "\<exists>n. \<not> poll_waits config env (txHash rc) n"
  proof (cases "poll_waits config env (txHash rc) k")
    case True
    then have "poll config env rc (Suc k) = Some r"
      using body by (auto simp: poll_waits_def poll_pending_def)
    then show ?thesis by (rule ih)
  qed blast
qed

text \<open>A poll that does not wait ends the submission.\<close>

lemma poll_receipt_decides:
  "\<not> poll_waits config env (txHash rc) k \<Longrightarrow> poll_receipt config env rc k \<noteq> None"
  by (subst poll_receipt.simps) (auto simp: poll_waits_def poll_pending_def split: sum.split)

lemma first_decision:
  assumes "\<not> poll_waits config env tx n"
  obtains k where "k \<le> n" "\<not> poll_waits config env tx k" "\<forall>j < k. poll_waits config env tx j"
proof -
  let ?k = "LEAST k. \<not> poll_waits config env tx k"
  have "\<not> poll_waits config env tx ?k" using assms by (rule LeastI)
  moreover have "?k \<le> n" using assms by (rule Least_le)
  moreover have "\<forall>j < ?k. poll_waits config env tx j" using not_less_Least by blast
  ultimately show thesis using that by blast
qed

lemma poll_receipt_reads:
  assumes "\<not> poll_waits config env (txHash rc) n" and "\<forall>k \<le> n. pollExchange env' k = pollExchange env k"
    and "pollElapsed env' = pollElapsed env"
  shows "poll_receipt config env' rc 0 = poll_receipt config env rc 0 \<and> poll_receipt config env rc 0 \<noteq> None"
proof -
  from first_decision [OF assms(1)] obtain k where k: "k \<le> n" "\<not> poll_waits config env (txHash rc) k"
    "\<forall>j < k. poll_waits config env (txHash rc) j" .
  then have k': "\<forall>j < k. poll_waits config env' (txHash rc) j" "\<not> poll_waits config env' (txHash rc) k"
    using assms(2,3) by (auto simp: poll_waits_def poll_pending_def)
  have "poll_receipt config env rc 0 = poll_receipt config env rc k"
    "poll_receipt config env' rc 0 = poll_receipt config env' rc k"
    using k(3) k'(1) by (auto intro: poll_receipt_skip)
  moreover have "poll_receipt config env' rc k = poll_receipt config env rc k"
    using k(1,2) k'(2) assms(2,3) by (subst (1 2) poll_receipt.simps) (auto simp: poll_waits_def poll_pending_def split: sum.split)
  moreover have "poll_receipt config env rc k \<noteq> None" using k(2) by (rule poll_receipt_decides)
  ultimately show ?thesis by simp
qed

text \<open>
  C16: a submission ends. When the poll interval is positive and the clock shows at least that
  interval per sleep, the call returns or throws whatever the node answers, after at most
  \<open>maxWaitMs div pollIntervalMs + 1\<close> further polls: its result does not depend on any later exchange.
\<close>
theorem eth_SubmitHash_returns:
  assumes "0 < pollIntervalMs config"
    and slept: "\<forall>k. int k * uint (pollIntervalMs config) \<le> pollElapsed env k"
  defines "n \<equiv> nat (uint (maxWaitMs config) div uint (pollIntervalMs config)) + 1"
  shows "eth_SubmitHash config env hash \<noteq> None \<and>
    eth_SubmitHash config (env\<lparr> pollExchange := (\<lambda>k. if k \<le> n then pollExchange env k else other k) \<rparr>) hash =
    eth_SubmitHash config env hash"
proof -
  let ?env = "env\<lparr> pollExchange := (\<lambda>k. if k \<le> n then pollExchange env k else other k) \<rparr>"
  have pos: "0 < uint (pollIntervalMs config)" using assms(1) by (simp add: word_less_def)
  have "uint (maxWaitMs config) \<le> int n * uint (pollIntervalMs config)"
  proof -
    have "uint (maxWaitMs config) < (uint (maxWaitMs config) div uint (pollIntervalMs config) + 1) * uint (pollIntervalMs config)"
      using pos by (metis mult.commute mult_div_mod_eq add_less_cancel_left distrib_left mult.right_neutral pos_mod_bound)
    moreover have "int n = uint (maxWaitMs config) div uint (pollIntervalMs config) + 1"
      using pos by (simp add: n_def pos_imp_zdiv_nonneg_iff)
    ultimately show ?thesis by simp
  qed
  also have "\<dots> \<le> pollElapsed env n" using slept by blast
  finally have "\<not> poll_waits config env tx n" for tx by (simp add: poll_waits_def)
  from poll_receipt_reads [OF this, of ?env]
  have "poll_receipt config ?env rc 0 = poll_receipt config env rc 0 \<and> poll_receipt config env rc 0 \<noteq> None" for rc
    by simp
  then show ?thesis by (simp add: eth_SubmitHash_def split: sum.split option.split)
qed


text \<open>A node that accepts every transaction and never mines it, over a clock that ticks once per interval.\<close>

definition null_reply :: "string \<Rightarrow> exchange" where
  "null_reply body = \<lparr> getaddrinfo = (\<lambda>host port. (0, [(3, 0)])),
     send_result = (\<lambda>request. int (length request)),
     recv_blocks = (\<lambda>request. [''HTTP/1.1 200 OK'' @ crlf, crlf, body]) \<rparr>"

definition slow_node :: eth_env where
  "slow_node = \<lparr> sendExchange = null_reply ''{\"result\":\"0xabc\"}'',
     pollExchange = (\<lambda>k. null_reply ''{\"result\":null}''), pollElapsed = (\<lambda>k. int k * 500), utcNow = 0 \<rparr>"

definition demo_config :: ethereum_config where
  "demo_config = ethereum_client_config (default_config\<lparr> fromAddress := ''0x01'' \<rparr>)"

lemma demo_config_simps [simp]:
  "rpcUrl demo_config = ''http://127.0.0.1:8545''" "fromAddress demo_config = ''0x01''"
  "toAddress demo_config = ''0x01''" "pollIntervalMs demo_config = 500" "maxWaitMs demo_config = 15000"
  by (simp_all add: demo_config_def ethereum_client_config_def default_config_def)

lemma ParseHttpUrl_demo:
  "ParseHttpUrl ''http://127.0.0.1:8545'' = Some \<lparr> urlHost = ''127.0.0.1'', urlPort = ''8545'', urlPath = ''/'' \<rparr>"
  by (simp add: ParseHttpUrl_def starts_with_def Let_def)

lemma HttpPostJson_null_reply:
  "HttpPostJson (null_reply body) ''http://127.0.0.1:8545'' payload = Inr body"
proof -
  have "concat [''HTTP/1.1 200 OK'' @ crlf, crlf, body] = http_message [''HTTP/1.1 200 OK''] body"
    by (simp add: http_message_def)
  with HttpPostJson_reply [where url = "''http://127.0.0.1:8545''" and net = "null_reply body" and payload = payload
      and a = "CHR ''2''" and b = "CHR ''0''" and c = "CHR ''0''" and phrase = "'' OK''" and headers = "[]" and body = body]
  show ?thesis
    by (simp add: ParseHttpUrl_demo null_reply_def digits_value_def digit_value_def is_digit_def http_line_def)
qed

theorem eth_SubmitHash_returns_witness:
  "eth_SubmitHash demo_config slow_node ''ab'' \<noteq> None"
  using eth_SubmitHash_returns [of demo_config slow_node "''ab''" "\<lambda>k. null_reply []"]
  by (simp add: slow_node_def)

text \<open>
  C28: where a receipt comes from. When a submission returns a receipt, the node's reply to the
  transaction named its hash, and the receipt was either answered by some poll after pending ones
  (its height then is the block number of that reply, or 0 when there is none), or the time was up
  with the transaction still pending, and the height is 0.
\<close>
theorem eth_receipt_origin:
  assumes "eth_SubmitHash config env hash = Some (Inr rc)"
  shows "\<exists>reply k. HttpPostJson (sendExchange env) (rpcUrl config) (sendTxPayload config hash) = Inr reply
    \<and> ExtractJsonStringField reply ''result'' = Some (txHash rc)
    \<and> (\<forall>j < k. poll_waits config env (txHash rc) j)
    \<and> (poll_pending config env (txHash rc) k \<and> uint (maxWaitMs config) \<le> pollElapsed env k \<and> blockHeight rc = 0
       \<or> (\<exists>answer. HttpPostJson (pollExchange env k) (rpcUrl config) (receiptPayload (txHash rc)) = Inr answer
            \<and> \<not> IsReceiptNull answer
            \<and> blockHeight rc = (case ExtractJsonStringField answer ''blockNumber'' of
                                  None \<Rightarrow> 0 | Some b \<Rightarrow> value_or (ParseHexNumber b) 0)))"
proof -
  from assms obtain reply where reply: "HttpPostJson (sendExchange env) (rpcUrl config) (sendTxPayload config hash) = Inr reply"
    by (auto simp: eth_SubmitHash_def split: if_splits sum.splits)
  with assms obtain tx where tx: "ExtractJsonStringField reply ''result'' = Some tx"
    by (auto simp: eth_SubmitHash_def split: if_splits option.splits)
  let ?rc = "\<lparr> txHash = tx, blockHeight = 0, submittedAtIso8601 = CurrentUtcIso8601 (utcNow env) \<rparr>"
  from assms reply tx have run: "poll_receipt config env ?rc 0 = Some (Inr rc)"
    by (auto simp: eth_SubmitHash_def split: if_splits)
  from poll_receipt_ends [OF run] have "\<exists>n. \<not> poll_waits config env tx n" by simp
  then obtain n where "\<not> poll_waits config env tx n" by blast
  from first_decision [OF this] obtain k where k: "\<not> poll_waits config env tx k" "\<forall>j < k. poll_waits config env tx j" .
  have "poll_receipt config env ?rc k = Some (Inr rc)"
    using run poll_receipt_skip [of 0 k config env ?rc] k(2) by simp
  with k(1) have tx': "txHash rc = tx" and fin: "poll_pending config env tx k \<and> uint (maxWaitMs config) \<le> pollElapsed env k \<and> blockHeight rc = 0
      \<or> (\<exists>answer. HttpPostJson (pollExchange env k) (rpcUrl config) (receiptPayload tx) = Inr answer \<and> \<not> IsReceiptNull answer
          \<and> blockHeight rc = (case ExtractJsonStringField answer ''blockNumber'' of
                                None \<Rightarrow> 0 | Some b \<Rightarrow> value_or (ParseHexNumber b) 0))"
    by (subst (asm) poll_receipt.simps, force simp: poll_pending_def poll_waits_def split: sum.splits if_splits option.splits)+
  with reply tx k(2) show ?thesis by blast
qed

text \<open>Extraction as a scan.\<close>

definition json_string_at :: "string \<Rightarrow> string \<Rightarrow> string option" where
  "json_string_at key s = (case string_value_at key s of Some (c # v) \<Rightarrow> Some (c # v) | _ \<Rightarrow> None)"

lemma match_json_string:
  "group1 (match_here (json_string_pattern key) s) = json_string_at key s"
  "match_here (json_string_pattern key) s = None \<longleftrightarrow> json_string_at key s = None"
proof -
  have out: "starts_outside (re_lit ''\"'' @ cap_plus (NoneOf ''\"'') @ re_lit ''\"'') SpaceClass"
    by (auto simp: re_lit_def is_space_def)
  have out2: "starts_outside (re_lit ''\"'') (NoneOf ''\"'')" by (simp add: re_lit_def)
  have plus: "match_here (cap_plus (NoneOf ''\"'') @ re_lit ''\"'') v =
    (if CHR 0x22 \<in> set v \<and> takeWhile (\<lambda>c. c \<noteq> CHR 0x22) v \<noteq> []
     then Some [takeWhile (\<lambda>c. c \<noteq> CHR 0x22) v] else None)" for v
    using match_here_greedy [OF out2, of 1 True v]
    by (cases "takeWhile (\<lambda>c. c \<noteq> CHR 0x22) v")
       (auto simp: cap_plus_def match_here_lit_Nil prefix_dropWhile_neq class_run_def simp del: match_here.simps)
  have tail: "match_here (re_lit ''\"'' @ cap_plus (NoneOf ''\"'') @ re_lit ''\"'') s =
     (case s of q # v \<Rightarrow>
        if q = CHR 0x22 \<and> CHR 0x22 \<in> set v \<and> takeWhile (\<lambda>c. c \<noteq> CHR 0x22) v \<noteq> []
        then Some [takeWhile (\<lambda>c. c \<noteq> CHR 0x22) v] else None
      | [] \<Rightarrow> None)" for s
    using plus by (subst match_here_lit) (auto split: list.splits simp del: match_here.simps)
  have "match_here (json_string_pattern key) s = map_option (\<lambda>v. [v]) (json_string_at key s)"
    unfolding json_string_pattern_def
    by (subst match_here_lit, simp only: match_after_colon [OF out] tail)
       (auto simp: json_string_at_def string_value_at_def split: option.splits list.splits)
  then show "group1 (match_here (json_string_pattern key) s) = json_string_at key s"
    and "match_here (json_string_pattern key) s = None \<longleftrightarrow> json_string_at key s = None"
    by (auto simp: group1_def split: option.splits)
qed

lemma ExtractJsonStringField_scan: "ExtractJsonStringField json key = first_at (json_string_at key) json"
  unfolding ExtractJsonStringField_def by (intro group1_search match_json_string)

lemma null_search:
  "regex_search (re_lit (quoted ''result'') @ re_star SpaceClass @ re_lit '':'' @ re_star SpaceClass @ re_lit ''null'') s \<noteq> None
   \<longleftrightarrow> first_at (\<lambda>s. if prefix (quoted ''result'') s then
         (case after_colon (drop 8 s) of Some r \<Rightarrow> if prefix ''null'' r then Some () else None | None \<Rightarrow> None)
         else None) s \<noteq> None"
proof (induction s)
  have out: "starts_outside (re_lit ''null'') SpaceClass" by (auto simp: re_lit_def is_space_def)
  have len: "length (quoted ''result'') = 8" by (simp add: quoted_def)
  note m = match_here_lit [of "quoted ''result''"] match_after_colon [OF out] match_here_lit_Nil len
  {
    case Nil
    show ?case by (subst regex_search.simps, subst first_at.simps, subst match_here_lit) (simp add: quoted_def)
  next
    case (Cons c s)
    then show ?case
      by (simp add: m del: match_here.simps split: option.splits)
  }
qed

lemma slow_node_reply: "ExtractJsonStringField ''{\"result\":\"0xabc\"}'' ''result'' = Some ''0xabc''"
  by (simp add: ExtractJsonStringField_scan json_string_at_def string_value_at_def quoted_def after_colon_def is_space_def)

lemma slow_null: "IsReceiptNull ''{\"result\":null}''"
  unfolding IsReceiptNull_def null_search
  by (simp add: quoted_def after_colon_def is_space_def)

lemma slow_node_pending: "poll_pending demo_config slow_node tx k"
  by (simp add: poll_pending_def slow_node_def HttpPostJson_null_reply slow_null is_rpc_error_def quoted_def)

lemma eth_timeout:
  assumes "fromAddress config \<noteq> []" and "toAddress config \<noteq> []"
    and "HttpPostJson (sendExchange env) (rpcUrl config) (sendTxPayload config hash) = Inr reply"
    and "\<not> is_rpc_error reply" and "ExtractJsonStringField reply ''result'' = Some tx" and "tx \<noteq> []"
    and pending: "\<And>k. poll_pending config env tx k" and "uint (maxWaitMs config) \<le> pollElapsed env n"
  shows "eth_SubmitHash config env hash =
    Some (Inr \<lparr> txHash = tx, blockHeight = 0, submittedAtIso8601 = CurrentUtcIso8601 (utcNow env) \<rparr>)"
proof -
  let ?rc = "\<lparr> txHash = tx, blockHeight = 0, submittedAtIso8601 = CurrentUtcIso8601 (utcNow env) \<rparr>"
  have "\<not> poll_waits config env tx n" using assms(8) by (simp add: poll_waits_def)
  from first_decision [OF this] obtain k where k: "\<not> poll_waits config env tx k" "\<forall>j < k. poll_waits config env tx j" .
  have "poll_receipt config env ?rc 0 = poll_receipt config env ?rc k"
    using poll_receipt_skip [of 0 k config env ?rc] k(2) by simp
  also have "\<dots> = Some (Inr ?rc)"
    using pending [of k] k(1) by (subst poll_receipt.simps) (auto simp: poll_waits_def poll_pending_def)
  finally show ?thesis using assms(1-6) by (simp add: eth_SubmitHash_def)
qed

text \<open>
  C39: a transaction that is never mined is reported as a receipt. When the node accepts the
  transaction and answers every poll with a null receipt, the submission returns, once the clock
  passes the limit, a receipt with the transaction hash and block height 0, and no error: the
  ingest service then stores the packet and reports it as accepted.
\<close>
theorem eth_timeout_returns_receipt:
  assumes "fromAddress config \<noteq> []" and "toAddress config \<noteq> []"
    and "HttpPostJson (sendExchange env) (rpcUrl config) (sendTxPayload config hash) = Inr reply"
    and "\<not> is_rpc_error reply" and "ExtractJsonStringField reply ''result'' = Some tx" and "tx \<noteq> []"
    and pending: "\<And>k. poll_pending config env tx k" and "uint (maxWaitMs config) \<le> pollElapsed env n"
  shows "eth_SubmitHash config env hash =
    Some (Inr \<lparr> txHash = tx, blockHeight = 0, submittedAtIso8601 = CurrentUtcIso8601 (utcNow env) \<rparr>)"
  using assms by (rule eth_timeout)

theorem eth_timeout_returns_receipt_witness:
  "eth_SubmitHash demo_config slow_node ''ab'' =
     Some (Inr \<lparr> txHash = ''0xabc'', blockHeight = 0, submittedAtIso8601 = CurrentUtcIso8601 0 \<rparr>)"
  using eth_timeout_returns_receipt [of demo_config slow_node "''ab''" "''{\"result\":\"0xabc\"}''" "''0xabc''" 30]
    slow_node_pending slow_node_reply
  by (simp add: slow_node_def HttpPostJson_null_reply is_rpc_error_def quoted_def)

theorem eth_receipt_origin_witness:
  "\<exists>k. (\<forall>j < k. poll_waits demo_config slow_node ''0xabc'' j) \<and> 15000 \<le> pollElapsed slow_node k"
proof -
  have "eth_SubmitHash demo_config slow_node [] =
     Some (Inr \<lparr> txHash = ''0xabc'', blockHeight = 0, submittedAtIso8601 = CurrentUtcIso8601 0 \<rparr>)"
    using eth_timeout [of demo_config slow_node "[]" "''{\"result\":\"0xabc\"}''" "''0xabc''" 30]
      slow_node_pending slow_node_reply
    by (simp add: slow_node_def HttpPostJson_null_reply is_rpc_error_def quoted_def)
  from eth_receipt_origin [OF this] obtain k where k: "\<forall>j < k. poll_waits demo_config slow_node ''0xabc'' j"
    "15000 \<le> pollElapsed slow_node k \<or> (\<exists>answer. HttpPostJson (pollExchange slow_node k) (rpcUrl demo_config)
        (receiptPayload ''0xabc'') = Inr answer \<and> \<not> IsReceiptNull answer)" by auto
  moreover have "\<not> (\<exists>answer. HttpPostJson (pollExchange slow_node k) (rpcUrl demo_config)
        (receiptPayload ''0xabc'') = Inr answer \<and> \<not> IsReceiptNull answer)"
    by (simp add: slow_node_def HttpPostJson_null_reply slow_null)
  ultimately show ?thesis by blast
qed

section \<open>The client of the ingest service\<close>

text \<open>
  The class as a \<open>blockchain_client\<close>; its state is the sequence of environments of the
  submissions to come. A submission that never returns has no result: the last branch stands for
  no behaviour of the program, and the clock excludes it.
\<close>

definition ethereum_client :: "ethereum_config \<Rightarrow> (nat \<Rightarrow> eth_env) blockchain_client" where
  "ethereum_client config = \<lparr> SubmitHash = (\<lambda>hash device ts envs.
     (case eth_SubmitHash (ethereum_client_config config) (envs 0) hash of
        Some result \<Rightarrow> result
      | None \<Rightarrow> Inl OtherException, \<lambda>k. envs (Suc k))) \<rparr>"


lemma json_string_at_proper: "json_string_at key s = Some v \<Longrightarrow> v \<noteq> [] \<and> no_quote v"
  using string_value_at_no_quote [of key s] by (auto simp: json_string_at_def split: option.splits list.splits)

lemma ExtractJsonStringField_proper: "ExtractJsonStringField json key = Some v \<Longrightarrow> v \<noteq> [] \<and> no_quote v"
  unfolding ExtractJsonStringField_scan by (auto dest!: first_at_SomeD json_string_at_proper)

text \<open>The polls change only the height of the receipt.\<close>

definition same_submission :: "blockchain_receipt \<Rightarrow> exn + blockchain_receipt \<Rightarrow> bool" where
  "same_submission rc r \<longleftrightarrow> (case r of Inl _ \<Rightarrow> True
     | Inr rc' \<Rightarrow> txHash rc' = txHash rc \<and> submittedAtIso8601 rc' = submittedAtIso8601 rc)"

lemma poll_receipt_keeps: "poll_receipt config env rc k = Some r \<Longrightarrow> same_submission rc r"
proof (rule poll_receipt.raw_induct [where P = "\<lambda>config env rc k r. same_submission rc r"])
  fix poll config env rc k r
  assume ih: "\<And>config env rc k r. poll config env rc k = Some r \<Longrightarrow> same_submission rc r"
    and body: "(case HttpPostJson (pollExchange env k) (rpcUrl config) (receiptPayload (txHash rc)) of
        Inl e \<Rightarrow> Some (Inl e)
      | Inr response \<Rightarrow>
          if is_rpc_error response then Some (Inl (StdException (ExtractRpcError response)))
          else if \<not> IsReceiptNull response then
            Some (Inr (case ExtractJsonStringField response ''blockNumber'' of
                         None \<Rightarrow> rc
                       | Some blockHex \<Rightarrow> rc\<lparr> blockHeight := value_or (ParseHexNumber blockHex) 0 \<rparr>))
          else if uint (maxWaitMs config) \<le> pollElapsed env k then Some (Inr rc)
          else poll config env rc (Suc k)) = Some r"
  show "same_submission rc r"
  proof (cases "poll config env rc (Suc k) = Some r")
    case False
    with body show ?thesis
      by (auto simp: same_submission_def split: sum.splits if_splits option.splits)
  qed (rule ih)
qed

lemma eth_proper:
  assumes "eth_SubmitHash config env hash = Some (Inr rc)"
  shows "proper_receipt rc"
proof -
  from assms obtain reply tx where "ExtractJsonStringField reply ''result'' = Some tx"
    "poll_receipt config env \<lparr> txHash = tx, blockHeight = 0, submittedAtIso8601 = CurrentUtcIso8601 (utcNow env) \<rparr> 0 = Some (Inr rc)"
    by (auto simp: eth_SubmitHash_def split: if_splits sum.splits option.splits)
  with ExtractJsonStringField_proper poll_receipt_keeps [OF this(2)] show ?thesis
    by (auto simp: proper_receipt_def same_submission_def)
qed

interpretation ethereum: receipt_source "ethereum_client config" "\<lambda>_. True" for config
  by unfold_locales (auto simp: ethereum_client_def eth_proper split: option.splits)

end
