(* ===== verification/Sqlite_Repository.thy ===== *)
theory Sqlite_Repository
  imports Ingest_Service Ethereum_Client
begin

text \<open>
  \<^verbatim>\<open>src/storage/sqlite_telemetry_repository.cpp\<close>: the repository over SQLite. The engine is
  third-party code, so its calls are a parameter, a record of functions over the state \<open>'d\<close> of a
  connection; the locale \<open>sqlite_engine\<close> states the documented behaviour of the statements that
  the class prepares, and a reference engine over a list of rows keeps it. A 64-bit integer of SQL
  is the word with the same bits, read by \<open>sint\<close>, so that the casts between
  \<^verbatim>\<open>std::int64_t\<close> and \<^verbatim>\<open>std::uint64_t\<close> are the identity.
\<close>

section \<open>Statements\<close>

text \<open>
  A row of the table; the columns that are not declared \<^verbatim>\<open>NOT NULL\<close> are options. A text is
  the C string that \<^verbatim>\<open>sqlite3_column_text\<close> gives: the program binds none with a NUL.
\<close>

record telemetry_row =
  rowId :: u64
  colDevice :: string
  colTimestamp :: u64
  colTelemetry :: string
  colHash :: string
  colSignature :: string
  colPubKey :: string
  colTransport :: string
  colBatch :: "string option"
  colTx :: "string option"
  colHeight :: "u64 option"
  colSubmitted :: "string option"

definition schema_sql :: string where
  "schema_sql =
     ''CREATE TABLE IF NOT EXISTS telemetry_records ('' @
     ''record_id INTEGER PRIMARY KEY AUTOINCREMENT,'' @
     ''device_id TEXT NOT NULL,'' @
     ''timestamp INTEGER NOT NULL,'' @
     ''telemetry_json TEXT NOT NULL,'' @
     ''hash_hex TEXT NOT NULL,'' @
     ''signature TEXT NOT NULL,'' @
     ''pub_key_id TEXT NOT NULL,'' @
     ''transport TEXT NOT NULL,'' @
     ''batch_code TEXT,'' @
     ''tx_hash TEXT,'' @
     ''block_height INTEGER,'' @
     ''submitted_at TEXT,'' @
     ''created_at TEXT DEFAULT CURRENT_TIMESTAMP'' @
     '');'' @
     ''CREATE INDEX IF NOT EXISTS idx_telemetry_device_time ON telemetry_records(device_id, timestamp DESC);'' @
     ''CREATE INDEX IF NOT EXISTS idx_telemetry_batch ON telemetry_records(batch_code);'' @
     ''CREATE UNIQUE INDEX IF NOT EXISTS idx_telemetry_tx_hash ON telemetry_records(tx_hash);''"

definition insert_sql :: string where
  "insert_sql =
     ''INSERT INTO telemetry_records '' @
     ''(device_id, timestamp, telemetry_json, hash_hex, signature, pub_key_id, transport, batch_code) '' @
     ''VALUES (?, ?, ?, ?, ?, ?, ?, ?);''"

definition update_sql :: string where
  "update_sql = ''UPDATE telemetry_records SET tx_hash = ?, block_height = ?, submitted_at = ? WHERE record_id = ?;''"

definition delete_sql :: string where
  "delete_sql = ''DELETE FROM telemetry_records WHERE record_id = ?;''"

definition select_columns :: string where
  "select_columns =
     ''SELECT record_id, device_id, timestamp, telemetry_json, hash_hex, signature, pub_key_id, transport, '' @
     ''batch_code, tx_hash, block_height, submitted_at ''"

definition latest_sql :: string where
  "latest_sql = select_columns @
     ''FROM telemetry_records WHERE device_id = ? ORDER BY timestamp DESC, record_id DESC LIMIT 1;''"

definition transaction_sql :: string where
  "transaction_sql = select_columns @ ''FROM telemetry_records WHERE tx_hash = ? LIMIT 1;''"

definition batch_sql :: string where
  "batch_sql = select_columns @
     ''FROM telemetry_records WHERE batch_code = ? ORDER BY timestamp ASC, record_id ASC;''"

definition count_sql :: string where
  "count_sql = ''SELECT COUNT(1) FROM telemetry_records;''"

text \<open>
  A value bound to a parameter of a statement or read from a column of a row, and the statements
  with the values bound to their parameters.
\<close>

datatype sql_value = SqlNull | SqlInt u64 | SqlText string

datatype sql_write =
    InsertRecord string u64 string string string string string "string option"
  | UpdateReceipt string u64 string u64
  | DeleteRecord u64

datatype sql_query = SelectLatest string | SelectTransaction string | SelectBatch string

section \<open>The engine\<close>

text \<open>
  The calls: the handle that opening a file gives (after the directory, if any, was asked for), or,
  when it fails, the handle that holds the message, if there is one; the result codes of preparing
  a statement and of binding a value to one of its parameters; the
  code of the step of a writing statement; the rows that the successive steps of a query give and
  the code that ends them; the number read by the count; row id and number of changes of the last
  write; the message of the last error.
\<close>

record 'd sqlite =
  openV2 :: "string option \<Rightarrow> string \<Rightarrow> 'd option + 'd"
  schemaExec :: "string \<Rightarrow> 'd \<Rightarrow> (int \<times> string option) \<times> 'd"
  prepareCode :: "string \<Rightarrow> 'd \<Rightarrow> int"
  bindCode :: "string \<Rightarrow> nat \<Rightarrow> sql_value \<Rightarrow> 'd \<Rightarrow> int"
  writeStep :: "sql_write \<Rightarrow> 'd \<Rightarrow> int \<times> 'd"
  queryRows :: "sql_query \<Rightarrow> 'd \<Rightarrow> telemetry_row list \<times> int"
  countStep :: "'d \<Rightarrow> int \<times> u64"
  lastInsertRowid :: "'d \<Rightarrow> u64"
  changesOf :: "'d \<Rightarrow> int"
  errMsg :: "'d \<Rightarrow> string option"

text \<open>
  What a prepared statement means once its parameters have values. The columns of the insertion
  and of the queries are those that the texts of the statements list, in that order.
\<close>

fun commas :: "string \<Rightarrow> string list" where
  "commas [] = [[]]"
| "commas (c # s) =
     (if c = CHR '','' then [] # commas s
      else if c = CHR '' '' then commas s
      else (case commas s of w # ws \<Rightarrow> (c # w) # ws | [] \<Rightarrow> [[c]]))"

definition insert_names :: "string list" where
  "insert_names = commas (takeWhile (\<lambda>c. c \<noteq> CHR '')'') (tl (dropWhile (\<lambda>c. c \<noteq> CHR ''('') insert_sql)))"

definition select_names :: "string list" where
  "select_names = commas (drop (length ''SELECT '') select_columns)"

definition text_of :: "sql_value \<Rightarrow> string option" where
  "text_of v = (case v of SqlText s \<Rightarrow> Some s | _ \<Rightarrow> None)"

definition int_of :: "sql_value \<Rightarrow> u64" where
  "int_of v = (case v of SqlInt n \<Rightarrow> n | _ \<Rightarrow> 0)"

definition named :: "(string \<times> sql_value) list \<Rightarrow> string \<Rightarrow> sql_value" where
  "named vs name = (case map_of vs name of Some v \<Rightarrow> v | None \<Rightarrow> SqlNull)"

definition statement_write :: "string \<Rightarrow> (nat \<Rightarrow> sql_value) \<Rightarrow> sql_write" where
  "statement_write sql v =
     (if sql = insert_sql then
        (let column = named (zip insert_names (map v [1 ..< 9]))
         in InsertRecord (the (text_of (column ''device_id''))) (int_of (column ''timestamp''))
              (the (text_of (column ''telemetry_json''))) (the (text_of (column ''hash_hex'')))
              (the (text_of (column ''signature''))) (the (text_of (column ''pub_key_id'')))
              (the (text_of (column ''transport''))) (text_of (column ''batch_code'')))
      else if sql = update_sql then
        UpdateReceipt (the (text_of (v 1))) (int_of (v 2)) (the (text_of (v 3))) (int_of (v 4))
      else DeleteRecord (int_of (v 1)))"

definition statement_query :: "string \<Rightarrow> (nat \<Rightarrow> sql_value) \<Rightarrow> sql_query" where
  "statement_query sql v =
     (if sql = latest_sql then SelectLatest (the (text_of (v 1)))
      else if sql = transaction_sql then SelectTransaction (the (text_of (v 1)))
      else SelectBatch (the (text_of (v 1))))"

definition nullable :: "('a \<Rightarrow> sql_value) \<Rightarrow> 'a option \<Rightarrow> sql_value" where
  "nullable value x = (case x of None \<Rightarrow> SqlNull | Some y \<Rightarrow> value y)"

definition row_values :: "telemetry_row \<Rightarrow> (string \<times> sql_value) list" where
  "row_values row =
     [(''record_id'', SqlInt (rowId row)), (''device_id'', SqlText (colDevice row)),
      (''timestamp'', SqlInt (colTimestamp row)), (''telemetry_json'', SqlText (colTelemetry row)),
      (''hash_hex'', SqlText (colHash row)), (''signature'', SqlText (colSignature row)),
      (''pub_key_id'', SqlText (colPubKey row)), (''transport'', SqlText (colTransport row)),
      (''batch_code'', nullable SqlText (colBatch row)), (''tx_hash'', nullable SqlText (colTx row)),
      (''block_height'', nullable SqlInt (colHeight row)), (''submitted_at'', nullable SqlText (colSubmitted row))]"

definition selected :: "telemetry_row \<Rightarrow> sql_value list" where
  "selected row = map (named (row_values row)) select_names"

definition SQLITE_OK :: int where "SQLITE_OK = 0"
definition SQLITE_ROW :: int where "SQLITE_ROW = 100"
definition SQLITE_DONE :: int where "SQLITE_DONE = 101"

section \<open>The repository\<close>

definition sql_error :: "'d sqlite \<Rightarrow> 'd option \<Rightarrow> string \<Rightarrow> exn" where
  "sql_error sq db pre =
     (let msg = (case db of Some d \<Rightarrow> errMsg sq d | None \<Rightarrow> Some ''sqlite error'')
      in StdException (pre @ '': '' @ (case msg of Some m \<Rightarrow> m | None \<Rightarrow> ''unknown'')))"

definition ThrowIfSqlError :: "'d sqlite \<Rightarrow> int \<Rightarrow> 'd option \<Rightarrow> string \<Rightarrow> exn + unit" where
  "ThrowIfSqlError sq status db pre =
     (if status = SQLITE_OK \<or> status = SQLITE_DONE \<or> status = SQLITE_ROW then Inr ()
      else Inl (sql_error sq db pre))"

definition ExecOrThrow :: "'d sqlite \<Rightarrow> string \<Rightarrow> 'd \<Rightarrow> (exn + unit) \<times> 'd" where
  "ExecOrThrow sq sql db =
     (case schemaExec sq sql db of
        ((status, error), db) \<Rightarrow>
          (if status \<noteq> SQLITE_OK
           then Inl (StdException (case error of Some m \<Rightarrow> m | None \<Rightarrow> ''sqlite exec error'')) else Inr (), db))"

definition PrepareOrThrow :: "'d sqlite \<Rightarrow> 'd \<Rightarrow> string \<Rightarrow> exn + unit" where
  "PrepareOrThrow sq db sql = ThrowIfSqlError sq (prepareCode sq sql db) (Some db) ''prepare failed''"

text \<open>
  The binding calls of one statement, each with its parameter, the value and the text of its error.
  \<^verbatim>\<open>c_str()\<close> with length -1 binds the text up to its first NUL.
\<close>

type_synonym binding = "nat \<times> sql_value \<times> string"

definition bind_text :: "nat \<Rightarrow> string \<Rightarrow> binding" where
  "bind_text k s = (k, SqlText (c_str s), ''bind text failed'')"

definition bind_int64 :: "nat \<Rightarrow> u64 \<Rightarrow> binding" where
  "bind_int64 k n = (k, SqlInt n, ''bind int64 failed'')"

fun bind_all :: "'d sqlite \<Rightarrow> 'd \<Rightarrow> string \<Rightarrow> binding list \<Rightarrow> exn + unit" where
  "bind_all sq db sql [] = Inr ()"
| "bind_all sq db sql ((k, v, pre) # bs) =
     (case ThrowIfSqlError sq (bindCode sq sql k v db) (Some db) pre of
        Inl e \<Rightarrow> Inl e | Inr _ \<Rightarrow> bind_all sq db sql bs)"

definition parameters :: "binding list \<Rightarrow> nat \<Rightarrow> sql_value" where
  "parameters bs k = (case map_of bs k of Some (v, _) \<Rightarrow> v | None \<Rightarrow> SqlNull)"

definition prepared :: "'d sqlite \<Rightarrow> 'd \<Rightarrow> string \<Rightarrow> binding list \<Rightarrow> exn + unit" where
  "prepared sq db sql bs = (case PrepareOrThrow sq db sql of Inl e \<Rightarrow> Inl e | Inr _ \<Rightarrow> bind_all sq db sql bs)"

definition run_write :: "'d sqlite \<Rightarrow> string \<Rightarrow> binding list \<Rightarrow> string \<Rightarrow> 'd \<Rightarrow> (exn + unit) \<times> 'd" where
  "run_write sq sql bs pre db =
     (case prepared sq db sql bs of
        Inl e \<Rightarrow> (Inl e, db)
      | Inr _ \<Rightarrow>
          (let (status, db) = writeStep sq (statement_write sql (parameters bs)) db
           in (ThrowIfSqlError sq status (Some db) pre, db)))"

definition sq_Save :: "'d sqlite \<Rightarrow> telemetry_packet \<Rightarrow> 'd \<Rightarrow> (exn + u64) \<times> 'd" where
  "sq_Save sq p db =
     (case run_write sq insert_sql
             [bind_text 1 (deviceId p), bind_int64 2 (timestamp p), bind_text 3 (telemetryJson p),
              bind_text 4 (hashHex p), bind_text 5 (signature p), bind_text 6 (pubKeyId p), bind_text 7 (transport p),
              if batchCode p = [] then (8, SqlNull, ''bind batch code failed'') else bind_text 8 (batchCode p)]
             ''insert telemetry failed'' db of
        (Inl e, db) \<Rightarrow> (Inl e, db)
      | (Inr _, db) \<Rightarrow> (Inr (lastInsertRowid sq db), db))"

definition sq_AttachReceipt :: "'d sqlite \<Rightarrow> u64 \<Rightarrow> blockchain_receipt \<Rightarrow> 'd \<Rightarrow> (exn + bool) \<times> 'd" where
  "sq_AttachReceipt sq i rc db =
     (case run_write sq update_sql
             [bind_text 1 (txHash rc), bind_int64 2 (blockHeight rc), bind_text 3 (submittedAtIso8601 rc), bind_int64 4 i]
             ''attach receipt failed'' db of
        (Inl e, db) \<Rightarrow> (Inl e, db)
      | (Inr _, db) \<Rightarrow> (Inr (0 < changesOf sq db), db))"

definition sq_Delete :: "'d sqlite \<Rightarrow> u64 \<Rightarrow> 'd \<Rightarrow> (exn + bool) \<times> 'd" where
  "sq_Delete sq i db =
     (case run_write sq delete_sql [bind_int64 1 i] ''delete telemetry failed'' db of
        (Inl e, db) \<Rightarrow> (Inl e, db)
      | (Inr _, db) \<Rightarrow> (Inr (0 < changesOf sq db), db))"

text \<open>
  The columns of the current row by their index; the text of a NULL column is a null pointer,
  which only \<^verbatim>\<open>ReadNullableText\<close> expects.
\<close>

definition column_int64 :: "sql_value list \<Rightarrow> nat \<Rightarrow> u64" where
  "column_int64 statement i = int_of (statement ! i)"

definition column_text :: "sql_value list \<Rightarrow> nat \<Rightarrow> string option" where
  "column_text statement i = text_of (statement ! i)"

definition ReadNullableText :: "sql_value list \<Rightarrow> nat \<Rightarrow> string option" where
  "ReadNullableText statement columnIndex =
     (if statement ! columnIndex = SqlNull then None
      else (case column_text statement columnIndex of None \<Rightarrow> None | Some value \<Rightarrow> Some value))"

definition RowToRecord :: "telemetry_row \<Rightarrow> telemetry_record" where
  "RowToRecord row =
     (let statement = selected row
      in \<lparr> recordId = column_int64 statement 0,
           packet = \<lparr> deviceId = the (column_text statement 1), timestamp = column_int64 statement 2,
             telemetryJson = the (column_text statement 3), hashHex = the (column_text statement 4),
             signature = the (column_text statement 5), pubKeyId = the (column_text statement 6),
             transport = the (column_text statement 7),
             batchCode = value_or (ReadNullableText statement 8) [] \<rparr>,
           receipt = (case ReadNullableText statement 9 of
              None \<Rightarrow> None
            | Some tx \<Rightarrow> Some \<lparr> txHash = tx, blockHeight = column_int64 statement 10,
                submittedAtIso8601 = value_or (ReadNullableText statement 11) [] \<rparr>) \<rparr>)"

text \<open>A query of which only the first step is made.\<close>

definition first_row :: "'d sqlite \<Rightarrow> string \<Rightarrow> binding list \<Rightarrow> string \<Rightarrow> 'd \<Rightarrow> exn + telemetry_record option" where
  "first_row sq sql bs pre db =
     (case prepared sq db sql bs of
        Inl e \<Rightarrow> Inl e
      | Inr _ \<Rightarrow>
          (case queryRows sq (statement_query sql (parameters bs)) db of
             (row # _, _) \<Rightarrow> Inr (Some (RowToRecord row))
           | ([], status) \<Rightarrow>
               (case ThrowIfSqlError sq status (Some db) pre of Inl e \<Rightarrow> Inl e | Inr _ \<Rightarrow> Inr None)))"

definition sq_LatestByDevice :: "'d sqlite \<Rightarrow> string \<Rightarrow> 'd \<Rightarrow> exn + telemetry_record option" where
  "sq_LatestByDevice sq d db = first_row sq latest_sql [bind_text 1 d] ''latest by device query failed'' db"

definition sq_FindByTransaction :: "'d sqlite \<Rightarrow> string \<Rightarrow> 'd \<Rightarrow> exn + telemetry_record option" where
  "sq_FindByTransaction sq t db = first_row sq transaction_sql [bind_text 1 t] ''find by transaction query failed'' db"

definition sq_FindByBatch :: "'d sqlite \<Rightarrow> string \<Rightarrow> 'd \<Rightarrow> exn + telemetry_record list" where
  "sq_FindByBatch sq b db =
     (case prepared sq db batch_sql [bind_text 1 b] of
        Inl e \<Rightarrow> Inl e
      | Inr _ \<Rightarrow>
          (let (rows, status) = queryRows sq (statement_query batch_sql (parameters [bind_text 1 b])) db
           in case ThrowIfSqlError sq status (Some db) ''find by batch query failed'' of
                Inl e \<Rightarrow> Inl e | Inr _ \<Rightarrow> Inr (map RowToRecord rows)))"

definition sq_Size :: "'d sqlite \<Rightarrow> 'd \<Rightarrow> exn + u64" where
  "sq_Size sq db =
     (case PrepareOrThrow sq db count_sql of
        Inl e \<Rightarrow> Inl e
      | Inr _ \<Rightarrow>
          (let (status, n) = countStep sq db
           in case ThrowIfSqlError sq status (Some db) ''size query failed'' of Inl e \<Rightarrow> Inl e | Inr _ \<Rightarrow> Inr n))"

definition EnsureSchema :: "'d sqlite \<Rightarrow> 'd \<Rightarrow> (exn + unit) \<times> 'd" where
  "EnsureSchema sq db = ExecOrThrow sq schema_sql db"

text \<open>
  The constructor. It asks for the directory of the file first and ignores the error of that; a
  path whose only slashes are leading has the root directory as its parent.
\<close>

definition parent_path :: "string \<Rightarrow> string" where
  "parent_path path =
     (case str_rfind CHR ''/'' path of
        None \<Rightarrow> []
      | Some i \<Rightarrow>
          (let dir = rev (dropWhile (\<lambda>c. c = CHR ''/'') (rev (take i path))) in if dir = [] then ''/'' else dir))"

definition open_repository :: "'d sqlite \<Rightarrow> string \<Rightarrow> exn + 'd" where
  "open_repository sq path =
     (case openV2 sq (if parent_path path \<noteq> [] then Some (parent_path path) else None) (c_str path) of
        Inl db \<Rightarrow> Inl (sql_error sq db ''open sqlite failed'')
      | Inr d \<Rightarrow> (case EnsureSchema sq d of (Inl e, _) \<Rightarrow> Inl e | (Inr _, d) \<Rightarrow> Inr d))"

definition sqlite_repository :: "'d sqlite \<Rightarrow> 'd telemetry_repository" where
  "sqlite_repository sq =
     \<lparr> Save = sq_Save sq, AttachReceipt = sq_AttachReceipt sq, Delete = sq_Delete sq,
       LatestByDevice = sq_LatestByDevice sq, FindByTransaction = sq_FindByTransaction sq,
       FindByBatch = sq_FindByBatch sq, Size = sq_Size sq \<rparr>"

section \<open>What the statements mean\<close>

text \<open>
  The documented meaning of the statements on the rows of the table, in the order of insertion.
  \<^verbatim>\<open>ORDER BY timestamp, record_id\<close> compares signed integers.
\<close>

datatype row_key = RowKey u64 u64

instantiation row_key :: linorder
begin

fun less_eq_row_key :: "row_key \<Rightarrow> row_key \<Rightarrow> bool" where
  "less_eq_row_key (RowKey t i) (RowKey t' i') \<longleftrightarrow> sint t < sint t' \<or> t = t' \<and> sint i \<le> sint i'"

definition less_row_key :: "row_key \<Rightarrow> row_key \<Rightarrow> bool" where
  "less_row_key k k' \<longleftrightarrow> k \<le> k' \<and> \<not> k' \<le> k"

instance
proof
  fix x y z :: row_key
  show "x < y \<longleftrightarrow> x \<le> y \<and> \<not> y \<le> x" by (rule less_row_key_def)
  show "x \<le> x" by (cases x) simp
  show "x \<le> y \<Longrightarrow> y \<le> z \<Longrightarrow> x \<le> z" by (cases x; cases y; cases z) auto
  show "x \<le> y \<Longrightarrow> y \<le> x \<Longrightarrow> x = y" by (cases x; cases y) (auto intro: signed_word_eqI)
  show "x \<le> y \<or> y \<le> x" by (cases x; cases y) (auto simp: not_less order.order_iff_strict dest: signed_word_eqI)
qed

end

definition order_key :: "telemetry_row \<Rightarrow> row_key" where
  "order_key r = RowKey (colTimestamp r) (rowId r)"

definition in_order :: "telemetry_row list \<Rightarrow> telemetry_row list" where
  "in_order rows = sort_key order_key rows"

fun select :: "sql_query \<Rightarrow> telemetry_row list \<Rightarrow> telemetry_row list" where
  "select (SelectLatest d) rows = take 1 (rev (in_order (filter (\<lambda>r. colDevice r = d) rows)))"
| "select (SelectTransaction t) rows = take 1 (filter (\<lambda>r. colTx r = Some t) rows)"
| "select (SelectBatch b) rows = in_order (filter (\<lambda>r. colBatch r = Some b) rows)"

fun inserted :: "sql_write \<Rightarrow> u64 \<Rightarrow> telemetry_row list" where
  "inserted (InsertRecord d t j h s pk tr b) i =
     [\<lparr> rowId = i, colDevice = d, colTimestamp = t, colTelemetry = j, colHash = h, colSignature = s,
        colPubKey = pk, colTransport = tr, colBatch = b, colTx = None, colHeight = None, colSubmitted = None \<rparr>]"
| "inserted _ i = []"

fun changed :: "sql_write \<Rightarrow> telemetry_row list \<Rightarrow> telemetry_row list" where
  "changed (UpdateReceipt tx h s i) rows =
     map (\<lambda>r. if rowId r = i then r\<lparr> colTx := Some tx, colHeight := Some h, colSubmitted := Some s \<rparr> else r) rows"
| "changed (DeleteRecord i) rows = filter (\<lambda>r. rowId r \<noteq> i) rows"
| "changed (InsertRecord _ _ _ _ _ _ _ _) rows = rows"

fun target :: "sql_write \<Rightarrow> u64 option" where
  "target (UpdateReceipt tx h s i) = Some i"
| "target (DeleteRecord i) = Some i"
| "target (InsertRecord _ _ _ _ _ _ _ _) = None"

definition unique_txs :: "telemetry_row list \<Rightarrow> bool" where
  "unique_txs rows \<longleftrightarrow> (\<forall>q \<in> set rows. \<forall>r \<in> set rows. colTx q = colTx r \<and> colTx q \<noteq> None \<longrightarrow> q = r)"

text \<open>
  The engine as the class relies on it: a write either succeeds with \<^verbatim>\<open>SQLITE_DONE\<close> and
  does what its statement says, or gives an error code and changes nothing; a query gives rows of
  its answer in order, all of them when it ends with \<^verbatim>\<open>SQLITE_DONE\<close>, and ends with that or
  an error; primary keys and transaction hashes are unique.
\<close>

definition sql_failure :: "int \<Rightarrow> bool" where
  "sql_failure status \<longleftrightarrow> status \<noteq> SQLITE_OK \<and> status \<noteq> SQLITE_ROW \<and> status \<noteq> SQLITE_DONE"

locale sqlite_engine =
  fixes sq :: "'d sqlite" and valid :: "'d \<Rightarrow> bool" and table :: "'d \<Rightarrow> telemetry_row list"
  assumes write_status: "\<lbrakk> valid db; writeStep sq w db = (status, db') \<rbrakk> \<Longrightarrow>
        valid db' \<and> (status = SQLITE_DONE \<or> sql_failure status)"
    and write_failed: "\<lbrakk> valid db; writeStep sq w db = (status, db'); sql_failure status \<rbrakk> \<Longrightarrow> table db' = table db"
    and write_inserted: "\<lbrakk> valid db; writeStep sq w db = (SQLITE_DONE, db'); target w = None \<rbrakk> \<Longrightarrow>
        lastInsertRowid sq db' \<notin> set (map rowId (table db)) \<and>
        table db' = table db @ inserted w (lastInsertRowid sq db')"
    and write_changed: "\<lbrakk> valid db; writeStep sq w db = (SQLITE_DONE, db'); target w = Some i \<rbrakk> \<Longrightarrow>
        table db' = changed w (table db) \<and> changesOf sq db' = int (length (filter (\<lambda>r. rowId r = i) (table db)))"
    and query_rows: "\<lbrakk> valid db; queryRows sq q db = (rows, status) \<rbrakk> \<Longrightarrow>
        prefix rows (select q (table db)) \<and> (status = SQLITE_DONE \<and> rows = select q (table db) \<or> sql_failure status)"
    and count_rows: "\<lbrakk> valid db; countStep sq db = (status, n) \<rbrakk> \<Longrightarrow>
        status = SQLITE_ROW \<and> n = of_nat (length (table db)) \<or> sql_failure status"
    and distinct_rows: "valid db \<Longrightarrow> distinct (map rowId (table db))"
    and unique_tx: "valid db \<Longrightarrow> unique_txs (table db)"

section \<open>The reference engine\<close>

record ref_db =
  refRows :: "telemetry_row list"
  refSequence :: u64
  refChanges :: int
  refFailing :: bool

definition max_rowid :: u64 where "max_rowid = 0x7FFFFFFFFFFFFFFF"

text \<open>
  \<^verbatim>\<open>AUTOINCREMENT\<close> never uses a row id again and fails with \<^verbatim>\<open>SQLITE_FULL\<close> (13) after
  the largest; a duplicate key of the unique index is \<^verbatim>\<open>SQLITE_CONSTRAINT\<close> (19); a failing
  disk is \<^verbatim>\<open>SQLITE_IOERR\<close> (10).
\<close>

fun ref_write :: "sql_write \<Rightarrow> ref_db \<Rightarrow> int \<times> ref_db" where
  "ref_write w db =
     (if refFailing db then (10, db)
      else case w of
        InsertRecord d t j h s pk tr b \<Rightarrow>
          if refSequence db = max_rowid then (13, db)
          else (SQLITE_DONE, db\<lparr> refRows := refRows db @ inserted w (refSequence db + 1),
                 refSequence := refSequence db + 1, refChanges := 1 \<rparr>)
      | UpdateReceipt tx h s i \<Rightarrow>
          if (\<exists>r \<in> set (refRows db). rowId r = i) \<and> (\<exists>r \<in> set (refRows db). rowId r \<noteq> i \<and> colTx r = Some tx)
          then (19, db)
          else (SQLITE_DONE, db\<lparr> refRows := changed w (refRows db),
                 refChanges := int (length (filter (\<lambda>r. rowId r = i) (refRows db))) \<rparr>)
      | DeleteRecord i \<Rightarrow>
          (SQLITE_DONE, db\<lparr> refRows := changed w (refRows db),
             refChanges := int (length (filter (\<lambda>r. rowId r = i) (refRows db))) \<rparr>))"

definition ref_engine :: "ref_db sqlite" where
  "ref_engine = \<lparr>
     openV2 = \<lambda>dir path. Inr \<lparr> refRows = [], refSequence = 0, refChanges = 0, refFailing = False \<rparr>,
     schemaExec = \<lambda>sql db. ((SQLITE_OK, None), db),
     prepareCode = \<lambda>sql db. SQLITE_OK, bindCode = \<lambda>sql k v db. SQLITE_OK,
     writeStep = ref_write,
     queryRows = \<lambda>q db. if refFailing db then ([], 10) else (select q (refRows db), SQLITE_DONE),
     countStep = \<lambda>db. if refFailing db then (10, 0) else (SQLITE_ROW, of_nat (length (refRows db))),
     lastInsertRowid = refSequence, changesOf = refChanges, errMsg = \<lambda>db. Some ''engine error'' \<rparr>"

definition ref_valid :: "ref_db \<Rightarrow> bool" where
  "ref_valid db \<longleftrightarrow> distinct (map rowId (refRows db)) \<and> unique_txs (refRows db) \<and>
     refSequence db \<le> max_rowid \<and> (\<forall>k \<in> set (map rowId (refRows db)). k \<le> refSequence db)"

lemmas sqlite_codes = SQLITE_OK_def SQLITE_ROW_def SQLITE_DONE_def sql_failure_def

lemma next_rowid:
  assumes "n \<le> max_rowid" "n \<noteq> max_rowid"
  shows "n < n + 1" "n + 1 \<le> max_rowid"
proof -
  have "n < max_rowid" using assms by simp
  then show "n + 1 \<le> max_rowid" by (rule inc_le)
  have "n + 1 \<noteq> 0" using \<open>n < max_rowid\<close> 
    by (auto simp: max_rowid_def eq_neg_iff_add_eq_0 [symmetric])
  then show "n < n + 1" by (rule less_next_word)
qed

lemma changed_target: "target w = Some i \<Longrightarrow> map rowId (changed w rows) = (case w of DeleteRecord _ \<Rightarrow> filter (\<lambda>k. k \<noteq> i) (map rowId rows) | _ \<Rightarrow> map rowId rows)"
  by (cases w) (auto simp: filter_map comp_def)

lemma unique_txs_insert: "unique_txs rows \<Longrightarrow> colTx r = None \<Longrightarrow> unique_txs (rows @ [r])"
  unfolding unique_txs_def by (simp only: set_append list.set) (metis Un_iff empty_iff insert_iff)

lemma unique_txs_filter: "unique_txs rows \<Longrightarrow> unique_txs (filter P rows)"
  by (auto simp: unique_txs_def)

lemma unique_txs_update:
  assumes "unique_txs rows" "distinct (map rowId rows)" "\<not> (\<exists>r \<in> set rows. rowId r \<noteq> i \<and> colTx r = Some tx) \<or> (\<forall>r \<in> set rows. rowId r \<noteq> i)"
  shows "unique_txs (changed (UpdateReceipt tx h s i) rows)"
proof (cases "\<forall>r \<in> set rows. rowId r \<noteq> i")
  case True
  then have "changed (UpdateReceipt tx h s i) rows = rows" by (induction rows) auto
  with assms(1) show ?thesis by (simp only:)
next
  case False
  with assms(3) have other: "colTx r \<noteq> Some tx" if "r \<in> set rows" "rowId r \<noteq> i" for r using that by blast
  have one: "q = r" if "q \<in> set rows" "r \<in> set rows" "rowId q = i" "rowId r = i" for q r
    using that assms(2) by (auto simp: distinct_map inj_on_def)
  let ?f = "\<lambda>r. if rowId r = i then r\<lparr> colTx := Some tx, colHeight := Some h, colSubmitted := Some s \<rparr> else r"
  have "?f q = ?f r" if "q \<in> set rows" "r \<in> set rows" "colTx (?f q) = colTx (?f r)" "colTx (?f q) \<noteq> None" for q r
    using that other [of q] other [of r] one [of q r] assms(1)
    by (cases "rowId q = i"; cases "rowId r = i") (auto simp: unique_txs_def)
  then show ?thesis unfolding unique_txs_def changed.simps set_map by blast
qed

lemma ref_write_valid:
  assumes "ref_valid db" "ref_write w db = (status, db')"
  shows "ref_valid db'"
proof (cases w)
  case (InsertRecord d t j h s pk tr b)
  show ?thesis
  proof (cases "refFailing db \<or> refSequence db = max_rowid")
    case True
    with assms InsertRecord show ?thesis by (auto split: if_splits)
  next
    case False
    then have "refSequence db < refSequence db + 1" "refSequence db + 1 \<le> max_rowid"
      using assms(1) next_rowid by (simp_all add: ref_valid_def)
    moreover have "refRows db' = refRows db @ inserted w (refSequence db + 1)" "refSequence db' = refSequence db + 1"
      using assms(2) False InsertRecord by auto
    ultimately show ?thesis
      using assms(1) InsertRecord unique_txs_insert by (fastforce simp: ref_valid_def)
  qed
next
  case (UpdateReceipt tx h s i)
  show ?thesis
  proof (cases "status = SQLITE_DONE")
    case True
    then have "refRows db' = changed w (refRows db)" "refSequence db' = refSequence db"
      "\<not> (\<exists>r \<in> set (refRows db). rowId r \<noteq> i \<and> colTx r = Some tx) \<or> (\<forall>r \<in> set (refRows db). rowId r \<noteq> i)"
      using assms(2) UpdateReceipt by (auto simp: sqlite_codes split: if_splits)
    moreover have "map rowId (changed w (refRows db)) = map rowId (refRows db)"
      using changed_target [of w i "refRows db"] UpdateReceipt by simp
    moreover have "unique_txs (changed w (refRows db))"
      using assms(1) calculation(3) unfolding UpdateReceipt by (intro unique_txs_update) (simp_all add: ref_valid_def)
    ultimately show ?thesis using assms(1) unfolding ref_valid_def by metis
  next
    case False
    with assms UpdateReceipt show ?thesis by (auto simp: sqlite_codes split: if_splits)
  qed
next
  case (DeleteRecord i)
  have "distinct (map rowId (filter (\<lambda>r. rowId r \<noteq> i) (refRows db)))"
    using assms(1) by (auto simp: ref_valid_def distinct_map inj_on_def)
  with assms DeleteRecord unique_txs_filter show ?thesis
    by (auto simp: ref_valid_def sqlite_codes split: if_splits)
qed

interpretation ref: sqlite_engine ref_engine ref_valid refRows
proof
  fix db w status db'
  assume valid: "ref_valid db" and run: "writeStep ref_engine w db = (status, db')"
  then have run': "ref_write w db = (status, db')" by (simp add: ref_engine_def)
  then show "ref_valid db' \<and> (status = SQLITE_DONE \<or> sql_failure status)"
    using ref_write_valid [OF valid run'] by (auto simp: sqlite_codes split: if_splits sql_write.splits)
  show "sql_failure status \<Longrightarrow> refRows db' = refRows db"
    using run' by (auto simp: sqlite_codes split: if_splits sql_write.splits)
next
  fix db w db'
  assume valid: "ref_valid db" and run: "writeStep ref_engine w db = (SQLITE_DONE, db')"
  then have run': "ref_write w db = (SQLITE_DONE, db')" by (simp add: ref_engine_def)
  show "lastInsertRowid ref_engine db' \<notin> set (map rowId (refRows db)) \<and>
      refRows db' = refRows db @ inserted w (lastInsertRowid ref_engine db')" if none: "target w = None"
  proof -
    obtain d t j h s pk tr b where w: "w = InsertRecord d t j h s pk tr b" using none by (cases w) auto
    with run' have db': "refRows db' = refRows db @ inserted w (refSequence db + 1)" "refSequence db' = refSequence db + 1"
      "refSequence db \<noteq> max_rowid"
      by (auto simp: sqlite_codes split: if_splits)
    with next_rowid(1) [of "refSequence db"] valid have "refSequence db + 1 \<notin> set (map rowId (refRows db))"
      by (fastforce simp: ref_valid_def)
    with db' show ?thesis by (simp add: ref_engine_def)
  qed
  fix i
  show "target w = Some i \<Longrightarrow> refRows db' = changed w (refRows db) \<and>
      changesOf ref_engine db' = int (length (filter (\<lambda>r. rowId r = i) (refRows db)))"
    using run' by (auto simp: ref_engine_def sqlite_codes split: if_splits sql_write.splits)
qed (auto simp: ref_engine_def ref_valid_def sqlite_codes split: if_splits)


section \<open>The contract of the repository\<close>

text \<open>What the table keeps of a packet and of a receipt: every text up to its first NUL.\<close>

definition stored_packet :: "telemetry_packet \<Rightarrow> telemetry_packet" where
  "stored_packet p = p\<lparr> deviceId := c_str (deviceId p), telemetryJson := c_str (telemetryJson p), hashHex := c_str (hashHex p),
     signature := c_str (signature p), pubKeyId := c_str (pubKeyId p), transport := c_str (transport p),
     batchCode := c_str (batchCode p) \<rparr>"

definition stored_receipt :: "blockchain_receipt \<Rightarrow> blockchain_receipt" where
  "stored_receipt rc = rc\<lparr> txHash := c_str (txHash rc), submittedAtIso8601 := c_str (submittedAtIso8601 rc) \<rparr>"

lemma c_str_Nil [simp]: "c_str [] = []"
  by (simp add: c_str_def)

text \<open>The columns that the texts list, and the statements that the calls of the class run.\<close>

lemma insert_names_eq:
  "insert_names = [''device_id'', ''timestamp'', ''telemetry_json'', ''hash_hex'', ''signature'', ''pub_key_id'',
     ''transport'', ''batch_code'']"
  by (simp add: insert_names_def insert_sql_def)

lemma select_names_eq:
  "select_names = [''record_id'', ''device_id'', ''timestamp'', ''telemetry_json'', ''hash_hex'', ''signature'',
     ''pub_key_id'', ''transport'', ''batch_code'', ''tx_hash'', ''block_height'', ''submitted_at'']"
  by (simp add: select_names_def select_columns_def)

lemmas value_simps = parameters_def bind_text_def bind_int64_def text_of_def int_of_def

lemma parameters_insert:
  "parameters [bind_text 1 d, bind_int64 2 t, bind_text 3 j, bind_text 4 h, bind_text 5 s, bind_text 6 pk, bind_text 7 tr,
      if b = [] then (8, SqlNull, pre) else bind_text 8 b] =
   (\<lambda>k. SqlNull)(1 := SqlText (c_str d), 2 := SqlInt t, 3 := SqlText (c_str j), 4 := SqlText (c_str h), 5 := SqlText (c_str s),
      6 := SqlText (c_str pk), 7 := SqlText (c_str tr), 8 := (if b = [] then SqlNull else SqlText (c_str b)))"
  by (rule ext) (simp add: value_simps)

lemma statement_insert:
  "statement_write insert_sql
     (parameters [bind_text 1 d, bind_int64 2 t, bind_text 3 j, bind_text 4 h, bind_text 5 s, bind_text 6 pk, bind_text 7 tr,
        if b = [] then (8, SqlNull, pre) else bind_text 8 b]) =
   InsertRecord (c_str d) t (c_str j) (c_str h) (c_str s) (c_str pk) (c_str tr) (if b = [] then None else Some (c_str b))"
  unfolding parameters_insert
  by (simp add: statement_write_def insert_names_eq named_def upt_rec text_of_def int_of_def)

lemma statement_insert_batch:
  "b \<noteq> [] \<Longrightarrow> statement_write insert_sql
     (parameters [bind_text 1 d, bind_int64 2 t, bind_text 3 j, bind_text 4 h, bind_text 5 s, bind_text 6 pk, bind_text 7 tr,
        bind_text 8 b]) =
   InsertRecord (c_str d) t (c_str j) (c_str h) (c_str s) (c_str pk) (c_str tr) (Some (c_str b))"
  using statement_insert [of d t j h s pk tr b "[]"] by simp

lemma statement_update:
  "statement_write update_sql (parameters [bind_text 1 tx, bind_int64 2 n, bind_text 3 at, bind_int64 4 i]) =
   UpdateReceipt (c_str tx) n (c_str at) i"
  by (simp add: statement_write_def insert_sql_def update_sql_def value_simps)

lemma statement_delete: "statement_write delete_sql (parameters [bind_int64 1 i]) = DeleteRecord i"
  by (simp add: statement_write_def insert_sql_def update_sql_def delete_sql_def value_simps)

lemma statement_queries:
  "statement_query latest_sql (parameters [bind_text 1 k]) = SelectLatest (c_str k)"
  "statement_query transaction_sql (parameters [bind_text 1 k]) = SelectTransaction (c_str k)"
  "statement_query batch_sql (parameters [bind_text 1 k]) = SelectBatch (c_str k)"
  by (simp_all add: statement_query_def latest_sql_def transaction_sql_def batch_sql_def select_columns_def value_simps)

lemmas statements = statement_insert statement_insert_batch statement_update statement_delete statement_queries
  statement_insert [unfolded One_nat_def] statement_insert_batch [unfolded One_nat_def] statement_update [unfolded One_nat_def]
  statement_delete [unfolded One_nat_def] statement_queries [unfolded One_nat_def]

lemma parent_path_file:
  assumes "dir \<noteq> []" "last dir \<noteq> CHR ''/''" "CHR ''/'' \<notin> set name"
  shows "parent_path (dir @ ''/'' @ name) = dir"
proof -
  have "str_rfind CHR ''/'' (dir @ ''/'' @ name) = Some (length dir)"
  proof -
    have "str_rfind CHR ''/'' name = None" using assms(3) by (induction name) auto
    then show ?thesis by (induction dir) simp_all
  qed
  moreover have "rev (dropWhile (\<lambda>c. c = CHR ''/'') (rev dir)) = dir"
    using assms(1,2) by (cases dir rule: rev_cases) simp_all
  ultimately show ?thesis using assms(1) by (simp add: parent_path_def)
qed

lemma selected_eq:
  "selected row =
     [SqlInt (rowId row), SqlText (colDevice row), SqlInt (colTimestamp row), SqlText (colTelemetry row),
      SqlText (colHash row), SqlText (colSignature row), SqlText (colPubKey row), SqlText (colTransport row),
      nullable SqlText (colBatch row), nullable SqlText (colTx row), nullable SqlInt (colHeight row),
      nullable SqlText (colSubmitted row)]"
  unfolding selected_def select_names_eq by (simp add: named_def row_values_def)

lemma column_values [simp]:
  "text_of (SqlText s) = Some s" "int_of (SqlInt n) = n" "int_of (nullable SqlInt m) = value_or m 0"
  by (simp_all add: text_of_def int_of_def nullable_def value_or_def split: option.split)

lemma ReadNullableText_nullable:
  "vs ! i = nullable SqlText x \<Longrightarrow> ReadNullableText vs i = x"
  by (cases x) (simp_all add: ReadNullableText_def column_text_def nullable_def)

lemma RowToRecord_eq:
  "RowToRecord row =
     \<lparr> recordId = rowId row,
       packet = \<lparr> deviceId = colDevice row, timestamp = colTimestamp row, telemetryJson = colTelemetry row,
         hashHex = colHash row, signature = colSignature row, pubKeyId = colPubKey row,
         transport = colTransport row, batchCode = value_or (colBatch row) [] \<rparr>,
       receipt = (case colTx row of
          None \<Rightarrow> None
        | Some tx \<Rightarrow> Some \<lparr> txHash = tx, blockHeight = value_or (colHeight row) 0,
            submittedAtIso8601 = value_or (colSubmitted row) [] \<rparr>) \<rparr>"
  unfolding RowToRecord_def selected_eq Let_def
  by (simp add: column_int64_def column_text_def ReadNullableText_nullable cong: option.case_cong)

lemma recordId_RowToRecord [simp]: "recordId (RowToRecord r) = rowId r"
  by (simp add: RowToRecord_eq)

lemma ids_RowToRecord [simp]: "ids (map RowToRecord rows) = map rowId rows"
  by (simp add: ids_def)

lemma RowToRecord_inserted:
  "map RowToRecord (inserted (InsertRecord (c_str (deviceId p)) (timestamp p) (c_str (telemetryJson p)) (c_str (hashHex p))
      (c_str (signature p)) (c_str (pubKeyId p)) (c_str (transport p))
      (if batchCode p = [] then None else Some (c_str (batchCode p)))) i) = [new_record i (stored_packet p)]"
  by (cases p) (simp add: RowToRecord_eq new_record_def stored_packet_def value_or_def)

lemma RowToRecord_update:
  "map RowToRecord (changed (UpdateReceipt (c_str (txHash rc)) (blockHeight rc) (c_str (submittedAtIso8601 rc)) i) rows) =
     store_attach i (stored_receipt rc) (map RowToRecord rows)"
  by (cases rc) (simp add: store_attach_def RowToRecord_eq stored_receipt_def value_or_def)

lemma RowToRecord_delete: "map RowToRecord (changed (DeleteRecord i) rows) = store_delete i (map RowToRecord rows)"
  by (simp add: store_delete_def filter_map comp_def)

text \<open>The records of a device and of a batch are those of the rows with that column.\<close>

lemma of_device_rows: "of_device d (map RowToRecord rows) = map RowToRecord (filter (\<lambda>r. colDevice r = d) rows)"
  by (simp add: of_device_def filter_map comp_def) (simp add: RowToRecord_eq)

lemma of_batch_rows:
  "c \<noteq> [] \<Longrightarrow> of_batch c (map RowToRecord rows) = map RowToRecord (filter (\<lambda>r. colBatch r = Some c) rows)"
proof -
  assume "c \<noteq> []"
  then have "(batchCode (packet (RowToRecord r)) = c) = (colBatch r = Some c)" for r
    by (cases "colBatch r") (auto simp: RowToRecord_eq value_or_def)
  then show ?thesis by (simp add: of_batch_def filter_map comp_def)
qed

lemma ThrowIf_Inr: "ThrowIfSqlError sq status db pre = Inr u \<longleftrightarrow> \<not> sql_failure status"
  by (simp add: ThrowIfSqlError_def sql_failure_def)

lemma ThrowIf_Inl: "ThrowIfSqlError sq status db pre = Inl e \<longleftrightarrow> sql_failure status \<and> e = sql_error sq db pre"
  by (auto simp: ThrowIfSqlError_def sql_failure_def)

lemma run_write_ok:
  assumes "run_write sq sql bs pre db = (Inr u, db')"
  obtains status where "writeStep sq (statement_write sql (parameters bs)) db = (status, db')" "\<not> sql_failure status"
  using assms by (auto simp: run_write_def ThrowIf_Inr split: sum.splits prod.splits)

lemma run_write_failed:
  assumes "run_write sq sql bs pre db = (Inl e, db')"
  shows "db' = db \<or> (\<exists>status. writeStep sq (statement_write sql (parameters bs)) db = (status, db') \<and> sql_failure status)"
  using assms by (auto simp: run_write_def ThrowIf_Inl split: sum.splits prod.splits)

lemma first_row_Some:
  "first_row sq sql bs pre db = Inr (Some r) \<Longrightarrow>
    \<exists>row rows status. queryRows sq (statement_query sql (parameters bs)) db = (row # rows, status) \<and> r = RowToRecord row"
  by (auto simp: first_row_def split: sum.splits prod.splits list.splits)

lemma first_row_None:
  "first_row sq sql bs pre db = Inr None \<Longrightarrow>
    \<exists>status. queryRows sq (statement_query sql (parameters bs)) db = ([], status) \<and> \<not> sql_failure status"
  by (auto simp: first_row_def ThrowIf_Inr split: sum.splits prod.splits list.splits)

lemma set_in_order [simp]: "set (in_order rows) = set rows" "in_order rows = [] \<longleftrightarrow> rows = []"
  by (auto simp: in_order_def) (metis set_empty set_sort)

lemma prefix_single: "prefix (x # xs) ys \<Longrightarrow> length ys \<le> 1 \<Longrightarrow> ys = [x]"
  by (cases ys) auto

context sqlite_engine
begin

lemma write_ok:
  assumes "valid db" "run_write sq sql bs pre db = (Inr u, db')"
  shows "writeStep sq (statement_write sql (parameters bs)) db = (SQLITE_DONE, db') \<and> valid db'"
  using assms write_status by (auto elim!: run_write_ok)

lemma write_error:
  assumes "valid db" "run_write sq sql bs pre db = (Inl e, db')"
  shows "valid db' \<and> table db' = table db"
  using run_write_failed [OF assms(2)] write_status [OF assms(1)] write_failed [OF assms(1)] assms(1) by auto

lemma changes_positive:
  assumes "valid db" "writeStep sq w db = (SQLITE_DONE, db')" "target w = Some i"
  shows "0 < changesOf sq db' \<longleftrightarrow> i \<in> set (map rowId (table db))"
  using write_changed [OF assms] by (auto simp: filter_empty_conv)

lemma latest_row:
  assumes "valid db" "sq_LatestByDevice sq d db = Inr (Some r)"
  obtains row where "select (SelectLatest (c_str d)) (table db) = [row]" "r = RowToRecord row"
proof -
  from first_row_Some [OF assms(2) [unfolded sq_LatestByDevice_def], unfolded statements] obtain row rows status where
    q: "queryRows sq (SelectLatest (c_str d)) db = (row # rows, status)" "r = RowToRecord row" by blast
  from query_rows [OF assms(1) q(1)] have "prefix (row # rows) (select (SelectLatest (c_str d)) (table db))" by simp
  moreover have "length (select (SelectLatest (c_str d)) (table db)) \<le> 1" by simp
  ultimately have "select (SelectLatest (c_str d)) (table db) = [row]"
    by (rule prefix_single)
  with q(2) that show thesis by blast
qed

end

sublocale sqlite_engine \<subseteq> store: telemetry_store "sqlite_repository sq" valid "\<lambda>_. True"
  "\<lambda>db. map RowToRecord (table db)" stored_packet stored_receipt c_str
proof
  fix db p i db'
  assume v: "valid db" and run: "Save (sqlite_repository sq) p db = (Inr i, db')"
  let ?w = "InsertRecord (c_str (deviceId p)) (timestamp p) (c_str (telemetryJson p)) (c_str (hashHex p))
    (c_str (signature p)) (c_str (pubKeyId p)) (c_str (transport p))
    (if batchCode p = [] then None else Some (c_str (batchCode p)))"
  from run obtain u where w: "writeStep sq ?w db = (SQLITE_DONE, db') \<and> valid db'" and i: "i = lastInsertRowid sq db'"
    by (auto simp: sqlite_repository_def sq_Save_def statements split: prod.splits sum.splits dest!: write_ok [OF v])
  from write_inserted [OF v, of ?w db'] w have "i \<notin> set (map rowId (table db))" "table db' = table db @ inserted ?w i"
    by (simp_all add: i)
  then show "valid db' \<and> i \<notin> set (ids (map RowToRecord (table db))) \<and>
      map RowToRecord (table db') = map RowToRecord (table db) @ [new_record i (stored_packet p)]"
    using w by (simp only: map_append RowToRecord_inserted ids_RowToRecord simp_thms)
next
  fix db p e db'
  assume "valid db" "Save (sqlite_repository sq) p db = (Inl e, db')"
  then show "valid db' \<and> map RowToRecord (table db') = map RowToRecord (table db)"
    using write_error [of db] by (fastforce simp: sqlite_repository_def sq_Save_def split: prod.splits sum.splits)
next
  fix db i rc b db'
  assume v: "valid db" and run: "AttachReceipt (sqlite_repository sq) i rc db = (Inr b, db')"
  let ?w = "UpdateReceipt (c_str (txHash rc)) (blockHeight rc) (c_str (submittedAtIso8601 rc)) i"
  from run have w: "writeStep sq ?w db = (SQLITE_DONE, db') \<and> valid db'" and b: "b = (0 < changesOf sq db')"
    by (auto simp: sqlite_repository_def sq_AttachReceipt_def statements split: prod.splits sum.splits dest!: write_ok [OF v])
  with write_changed [OF v, of ?w db' i] changes_positive [OF v, of ?w db' i]
  show "valid db' \<and> (b \<longleftrightarrow> i \<in> set (ids (map RowToRecord (table db)))) \<and>
      map RowToRecord (table db') = store_attach i (stored_receipt rc) (map RowToRecord (table db))"
    by (simp only: RowToRecord_update ids_RowToRecord target.simps simp_thms)
next
  fix db i rc e db'
  assume "valid db" "AttachReceipt (sqlite_repository sq) i rc db = (Inl e, db')"
  then show "valid db' \<and> map RowToRecord (table db') = map RowToRecord (table db)"
    using write_error [of db] by (fastforce simp: sqlite_repository_def sq_AttachReceipt_def split: prod.splits sum.splits)
next
  fix db i b db'
  assume v: "valid db" and run: "Delete (sqlite_repository sq) i db = (Inr b, db')"
  from run have w: "writeStep sq (DeleteRecord i) db = (SQLITE_DONE, db') \<and> valid db'" and b: "b = (0 < changesOf sq db')"
    by (auto simp: sqlite_repository_def sq_Delete_def statements split: prod.splits sum.splits dest!: write_ok [OF v])
  with write_changed [OF v, of "DeleteRecord i" db' i] changes_positive [OF v, of "DeleteRecord i" db' i]
  show "valid db' \<and> (b \<longleftrightarrow> i \<in> set (ids (map RowToRecord (table db)))) \<and>
      map RowToRecord (table db') = store_delete i (map RowToRecord (table db))"
    by (simp only: RowToRecord_delete ids_RowToRecord target.simps simp_thms)
next
  fix db i e db'
  assume "valid db" "Delete (sqlite_repository sq) i db = (Inl e, db')"
  then show "valid db' \<and> map RowToRecord (table db') = map RowToRecord (table db)"
    using write_error [of db] by (fastforce simp: sqlite_repository_def sq_Delete_def split: prod.splits sum.splits)
next
  fix db assume "valid db"
  then show "distinct (ids (map RowToRecord (table db)))" using distinct_rows by simp
next
  fix db d r
  assume v: "valid db" and run: "LatestByDevice (sqlite_repository sq) d db = Inr (Some r)"
  then obtain row where row: "select (SelectLatest (c_str d)) (table db) = [row]" "r = RowToRecord row"
    by (auto simp: sqlite_repository_def elim: latest_row)
  then have "row \<in> set (select (SelectLatest (c_str d)) (table db))" by simp
  then have "row \<in> set (table db) \<and> colDevice row = c_str d" by (auto dest!: in_set_takeD)
  with row(2) show "r \<in> set (of_device (c_str d) (map RowToRecord (table db)))"
    by (auto simp: of_device_def RowToRecord_eq)
next
  fix db d
  assume v: "valid db" and run: "LatestByDevice (sqlite_repository sq) d db = Inr None"
  then obtain status where q: "queryRows sq (SelectLatest (c_str d)) db = ([], status)" "\<not> sql_failure status"
    using first_row_None [of sq latest_sql "[bind_text 1 d]"] by (force simp: sqlite_repository_def sq_LatestByDevice_def statements)
  from query_rows [OF v q(1)] q(2) have "select (SelectLatest (c_str d)) (table db) = []" by auto
  then have "filter (\<lambda>r. colDevice r = c_str d) (table db) = []" by simp
  then show "of_device (c_str d) (map RowToRecord (table db)) = []" by (simp add: of_device_rows)
next
  fix db c rs
  assume v: "valid db" and c: "c_str c \<noteq> []" and run: "FindByBatch (sqlite_repository sq) c db = Inr rs"
  then obtain rows status where q: "queryRows sq (SelectBatch (c_str c)) db = (rows, status)" "\<not> sql_failure status"
      and rs: "rs = map RowToRecord rows"
    by (auto simp: sqlite_repository_def sq_FindByBatch_def statements ThrowIf_Inr split: sum.splits prod.splits)
  from query_rows [OF v q(1)] q(2) have "rows = in_order (filter (\<lambda>r. colBatch r = Some (c_str c)) (table db))" by auto
  then have "mset rs = image_mset RowToRecord (mset (filter (\<lambda>r. colBatch r = Some (c_str c)) (table db)))"
    by (simp add: rs in_order_def)
  then show "mset rs = mset (of_batch (c_str c) (map RowToRecord (table db)))" by (simp add: of_batch_rows [OF c])
next
  fix db n
  assume "valid db" "Size (sqlite_repository sq) db = Inr n"
  then show "n = of_nat (length (map RowToRecord (table db)))"
    using count_rows [of db] by (auto simp: sqlite_repository_def sq_Size_def ThrowIf_Inr split: sum.splits prod.splits)
qed


section \<open>Queries\<close>

text \<open>The order of the device query: signed time first, then signed id.\<close>

definition not_later :: "telemetry_record \<Rightarrow> telemetry_record \<Rightarrow> bool" where
  "not_later q r \<longleftrightarrow> sint (timestamp (packet q)) < sint (timestamp (packet r)) \<or>
     timestamp (packet q) = timestamp (packet r) \<and> sint (recordId q) \<le> sint (recordId r)"

lemma order_key_le [simp]: "order_key q \<le> order_key r \<longleftrightarrow> not_later (RowToRecord q) (RowToRecord r)"
  by (simp add: order_key_def not_later_def RowToRecord_eq)

lemma sorted_last: "sorted xs \<Longrightarrow> x \<in> set xs \<Longrightarrow> x \<le> last xs"
  by (induction xs rule: rev_induct) (auto simp: sorted_append)

lemma latest_is_max:
  assumes "take 1 (rev (in_order rows)) = [row]" "q \<in> set rows"
  shows "not_later (RowToRecord q) (RowToRecord row)"
proof -
  have ne: "in_order rows \<noteq> []" using assms(2) by auto
  then have "row = last (in_order rows)" using assms(1) by (cases "in_order rows" rule: rev_cases) auto
  then have "order_key row = last (map order_key (in_order rows))" using ne by (simp add: last_map)
  moreover have "order_key q \<in> set (map order_key (in_order rows))" using assms(2) by simp
  moreover have "sorted (map order_key (in_order rows))" by (simp add: in_order_def)
  ultimately have "order_key q \<le> order_key row" using sorted_last by metis
  then show ?thesis by simp
qed

lemma has_tx_row: "has_tx t (RowToRecord r) \<longleftrightarrow> colTx r = Some t"
  by (auto simp: has_tx_def RowToRecord_eq split: option.splits)

context sqlite_engine
begin

lemma latest_record:
  assumes "valid db" "LatestByDevice (sqlite_repository sq) d db = Inr (Some r)"
    and "q \<in> set (of_device (c_str d) (map RowToRecord (table db)))"
  shows "not_later q r"
proof -
  from latest_row [OF assms(1)] assms(2) obtain row where
    row: "take 1 (rev (in_order (filter (\<lambda>r. colDevice r = c_str d) (table db)))) = [row]" "r = RowToRecord row"
    by (auto simp: sqlite_repository_def)
  with assms(3) latest_is_max [OF row(1)] show ?thesis by (auto simp: of_device_rows)
qed

lemma latest_of_device:
  "valid db \<Longrightarrow> LatestByDevice (sqlite_repository sq) d db = Inr (Some r) \<Longrightarrow>
    r \<in> set (of_device (c_str d) (map RowToRecord (table db)))"
  by (rule store.latest_some)

lemma batch_of:
  "valid db \<Longrightarrow> FindByBatch (sqlite_repository sq) c db = Inr qs \<Longrightarrow> c_str c \<noteq> [] \<Longrightarrow>
    mset qs = mset (of_batch (c_str c) (map RowToRecord (table db)))"
  by (rule store.batch_all)

lemma batch_sorted:
  assumes "valid db" "FindByBatch (sqlite_repository sq) c db = Inr rs"
  shows "sorted_wrt not_later rs"
proof -
  from assms(2) obtain rows status where q: "queryRows sq (SelectBatch (c_str c)) db = (rows, status)" "\<not> sql_failure status"
      and rs: "rs = map RowToRecord rows"
    by (auto simp: sqlite_repository_def sq_FindByBatch_def statements ThrowIf_Inr split: sum.splits prod.splits)
  from query_rows [OF assms(1) q(1)] q(2)
  have "sorted (map order_key rows)" by (auto simp: in_order_def)
  then show ?thesis by (simp add: rs sorted_wrt_map)
qed

lemma transaction_record:
  assumes "valid db" "FindByTransaction (sqlite_repository sq) t db = Inr found"
  shows "case found of Some r \<Rightarrow> r \<in> set (map RowToRecord (table db)) \<and> has_tx (c_str t) r
    | None \<Rightarrow> \<forall>r \<in> set (map RowToRecord (table db)). \<not> has_tx (c_str t) r"
proof (cases found)
  case None
  with assms(2) first_row_None [of sq transaction_sql "[bind_text 1 t]"] obtain status where
    q: "queryRows sq (SelectTransaction (c_str t)) db = ([], status)" "\<not> sql_failure status"
    by (force simp: sqlite_repository_def sq_FindByTransaction_def statements)
  from query_rows [OF assms(1) q(1)] q(2) have "filter (\<lambda>r. colTx r = Some (c_str t)) (table db) = []" by auto
  then show ?thesis by (auto simp: None has_tx_row filter_empty_conv)
next
  case (Some r)
  with assms(2) first_row_Some [of sq transaction_sql "[bind_text 1 t]"] obtain row rows status where
    q: "queryRows sq (SelectTransaction (c_str t)) db = (row # rows, status)" "r = RowToRecord row"
    by (force simp: sqlite_repository_def sq_FindByTransaction_def statements)
  from query_rows [OF assms(1) q(1)] have "prefix (row # rows) (select (SelectTransaction (c_str t)) (table db))" by simp
  then have "row \<in> set (select (SelectTransaction (c_str t)) (table db))" by (auto simp: prefix_def)
  then show ?thesis using q(2) by (auto simp: Some has_tx_row dest!: in_set_takeD)
qed

lemma unique_tx_records:
  assumes "valid db" "q \<in> set (map RowToRecord (table db))" "r \<in> set (map RowToRecord (table db))" "has_tx t q" "has_tx t r"
  shows "q = r"
proof -
  obtain q' r' where rows: "q' \<in> set (table db)" "r' \<in> set (table db)" "q = RowToRecord q'" "r = RowToRecord r'"
    using assms(2,3) by auto
  then have "colTx q' = Some t" "colTx r' = Some t" using assms(4,5) by (simp_all add: has_tx_row)
  then have "q' = r'" using unique_tx [OF assms(1)] rows(1,2) unfolding unique_txs_def by (metis option.distinct(1))
  with rows show ?thesis by simp
qed

end

text \<open>What is stored is found again.\<close>

lemma c_str_idem [simp]: "c_str (c_str s) = c_str s"
  by (simp add: c_str_def)

lemma stored_packet_c_str: "c_str (deviceId (stored_packet p)) = deviceId (stored_packet p)"
  "c_str (batchCode (stored_packet p)) = batchCode (stored_packet p)"
  by (simp_all add: stored_packet_def)

lemma stored_receipt_c_str: "c_str (txHash (stored_receipt rc)) = txHash (stored_receipt rc)"
  by (simp add: stored_receipt_def)

context sqlite_engine
begin

text \<open>The queries for a stored record.\<close>

lemma transaction_of_stored:
  assumes "valid db" "r \<in> set (map RowToRecord (table db))" "has_tx t r" "c_str t = t"
    and "FindByTransaction (sqlite_repository sq) t db = Inr found"
  shows "found = Some r"
proof (cases found)
  case None
  with transaction_record [OF assms(1,5)] assms(2-4) show ?thesis by auto
next
  case (Some q)
  with transaction_record [OF assms(1,5)] assms(4) have "q \<in> set (map RowToRecord (table db))" "has_tx t q" by simp_all
  with unique_tx_records [OF assms(1) this(1) assms(2) this(2) assms(3)] Some show ?thesis by simp
qed

lemma batch_of_stored:
  assumes "valid db" "r \<in> set (map RowToRecord (table db))" "batchCode (packet r) \<noteq> []" "c_str (batchCode (packet r)) = batchCode (packet r)"
    and "FindByBatch (sqlite_repository sq) (batchCode (packet r)) db = Inr found"
  shows "r \<in> set found \<and> sorted_wrt not_later found"
proof -
  have "mset found = mset (of_batch (batchCode (packet r)) (map RowToRecord (table db)))"
    using batch_of [OF assms(1,5)] assms(3,4) by simp
  then have "set found = set (of_batch (batchCode (packet r)) (map RowToRecord (table db)))" by (rule mset_eq_setD)
  moreover have "r \<in> set (of_batch (batchCode (packet r)) (map RowToRecord (table db)))"
    using assms(2) by (simp add: of_batch_def)
  ultimately show ?thesis using batch_sorted [OF assms(1,5)] by simp
qed

lemma device_of_stored:
  assumes "valid db" "r \<in> set (map RowToRecord (table db))" "c_str (deviceId (packet r)) = deviceId (packet r)"
    and "LatestByDevice (sqlite_repository sq) (deviceId (packet r)) db = Inr found"
  shows "\<exists>q. found = Some q \<and> deviceId (packet q) = deviceId (packet r) \<and> not_later r q"
proof -
  have r: "r \<in> set (of_device (c_str (deviceId (packet r))) (map RowToRecord (table db)))"
    using assms(2,3) by (simp add: of_device_def)
  show ?thesis
  proof (cases found)
    case None
    with assms(4) store.latest_none [OF assms(1), of "deviceId (packet r)"] r show ?thesis by auto
  next
    case (Some q)
    with assms(4) latest_of_device [OF assms(1), of "deviceId (packet r)" q] latest_record [OF assms(1) _ r, of q]
    show ?thesis using assms(3) by (auto simp: of_device_def)
  qed
qed

end



text \<open>The reference engine accepts every statement and every value.\<close>

lemma ref_engine_simps:
  "openV2 ref_engine dir path = Inr \<lparr> refRows = [], refSequence = 0, refChanges = 0, refFailing = False \<rparr>"
  "schemaExec ref_engine sql db = ((SQLITE_OK, None), db)" "prepareCode ref_engine sql db = SQLITE_OK"
  "bindCode ref_engine sql k v db = SQLITE_OK" "writeStep ref_engine = ref_write"
  "queryRows ref_engine q db = (if refFailing db then ([], 10) else (select q (refRows db), SQLITE_DONE))"
  "countStep ref_engine db = (if refFailing db then (10, 0) else (SQLITE_ROW, of_nat (length (refRows db))))"
  "lastInsertRowid ref_engine = refSequence" "changesOf ref_engine = refChanges" "errMsg ref_engine db = Some ''engine error''"
  by (simp_all add: ref_engine_def)

lemma ref_prepared: "prepared ref_engine db sql bs = Inr ()"
proof -
  have "bind_all ref_engine db sql bs = Inr ()"
    by (induction bs) (auto simp: ThrowIfSqlError_def ref_engine_simps)
  then show ?thesis by (simp add: prepared_def PrepareOrThrow_def ThrowIfSqlError_def ref_engine_simps)
qed

lemmas engine_simps = run_write_def statements ref_prepared PrepareOrThrow_def ThrowIfSqlError_def ref_engine_simps sqlite_codes

definition demo_row :: "u64 \<Rightarrow> u64 \<Rightarrow> string \<Rightarrow> telemetry_row" where
  "demo_row i t tx = \<lparr> rowId = i, colDevice = ''d'', colTimestamp = t, colTelemetry = ''{}'', colHash = [], colSignature = [],
     colPubKey = [], colTransport = [], colBatch = Some ''b'', colTx = Some tx, colHeight = Some 1, colSubmitted = Some [] \<rparr>"

definition demo_db :: ref_db where
  "demo_db = \<lparr> refRows = [demo_row 1 9 ''x'', demo_row 2 5 ''y''], refSequence = 2, refChanges = 0, refFailing = False \<rparr>"

lemma demo_db_valid: "ref_valid demo_db"
  by (simp add: ref_valid_def demo_db_def demo_row_def unique_txs_def max_rowid_def)


end
