(* ===== verification/Sqlite_Gateway.thy ===== *)
theory Sqlite_Gateway
  imports Sqlite_Repository
begin

text \<open>
  The ingest service over the SQLite repository, the composition that \<^verbatim>\<open>main.cpp\<close> builds: what an
  ingest does to the table, for any engine that keeps the documented meaning of the statements.
\<close>

section \<open>One ingest over SQLite\<close>

definition sqlite_service :: "'d sqlite \<Rightarrow> 'k verify_build \<Rightarrow> public_key_map \<Rightarrow> 'c blockchain_client \<Rightarrow> hash_build
    \<Rightarrow> ('d, 'c) ingest_service" where
  "sqlite_service sq b keys chain h = \<lparr> repository = sqlite_repository sq, signatureVerifier = Verify b keys,
     blockchainClient = chain, hashBuild = h \<rparr>"

locale sqlite_gateway = sqlite_engine sq valid table
  for sq :: "'d sqlite" and valid table +
  fixes b :: "'k verify_build" and keys :: public_key_map and chain :: "'c blockchain_client" and h :: hash_build

sublocale sqlite_gateway \<subseteq> gateway: ingest_client "sqlite_repository sq" valid "\<lambda>_. True"
  "\<lambda>db. map RowToRecord (table db)" stored_packet stored_receipt c_str "Verify b keys" "dom keys"
  "sqlite_service sq b keys chain h"
  by unfold_locales (simp_all add: sqlite_service_def)

context sqlite_gateway
begin

lemma ingest_effect:
  assumes "valid (repositoryState g)" "Ingest (sqlite_service sq b keys chain h) ms p g = (res, g')"
  shows "valid (repositoryState g') \<and>
    ingest_spec (sqlite_service sq b keys chain h) stored_packet stored_receipt p (chainState g)
      (map RowToRecord (table (repositoryState g))) res (map RowToRecord (table (repositoryState g')))"
  using gateway.Ingest_spec [OF assms(1) TrueI assms(2)] .

end

interpretation ref_gateway: sqlite_gateway ref_engine ref_valid refRows b keys chain h for b keys chain h
  by unfold_locales

lemma sqlite_ingest_effect:
  assumes "sqlite_engine sq valid table" and "valid (repositoryState g)"
    and "Ingest (sqlite_service sq b keys chain h) ms p g = (res, g')"
  defines "old \<equiv> map RowToRecord (table (repositoryState g))" and "new \<equiv> map RowToRecord (table (repositoryState g'))"
  shows "valid (repositoryState g') \<and>
    (case res of
       Inl e \<Rightarrow> new = old
     | Inr r \<Rightarrow>
         if accepted r then
           (\<exists>rc. resultReceipt r = Some rc \<and> chain_answer (sqlite_service sq b keys chain h) p (chainState g) = Inr rc \<and>
             resultRecordId r \<notin> set (ids old) \<and>
             new = old @ [\<lparr> recordId = resultRecordId r, packet = stored_packet p, receipt = Some (stored_receipt rc) \<rparr>])
         else new = old \<or>
           orphan_message (message r) \<and> new = old @ [new_record (resultRecordId r) (stored_packet p)])"
proof -
  from sqlite_gateway.ingest_effect [OF sqlite_gateway.intro [OF assms(1)] assms(2,3)]
  have "valid (repositoryState g')" and S: "ingest_spec (sqlite_service sq b keys chain h) stored_packet stored_receipt p (chainState g) old res new"
    by (simp_all add: old_def new_def)
  from S this(1) show ?thesis by cases auto
qed

text \<open>
  C3: an ingest over SQLite is all or nothing, for any engine that may fail at any call. An
  exception leaves the table as it was. A result that says accepted has added exactly the packet
  (its texts up to their first NUL) under a fresh id with the receipt the chain gave. A result that
  says rejected has added nothing, except when the deletion of the rollback failed too, and then
  the result says so and the record left behind has no receipt.
\<close>
theorem sqlite_ingest_atomic:
  assumes "sqlite_engine sq valid table" and "valid (repositoryState g)"
    and "Ingest (sqlite_service sq b keys chain h) ms p g = (res, g')"
  defines "old \<equiv> map RowToRecord (table (repositoryState g))" and "new \<equiv> map RowToRecord (table (repositoryState g'))"
  shows "valid (repositoryState g') \<and>
    (case res of
       Inl e \<Rightarrow> new = old
     | Inr r \<Rightarrow>
         if accepted r then
           (\<exists>rc. resultReceipt r = Some rc \<and> chain_answer (sqlite_service sq b keys chain h) p (chainState g) = Inr rc \<and>
             resultRecordId r \<notin> set (ids old) \<and>
             new = old @ [\<lparr> recordId = resultRecordId r, packet = stored_packet p, receipt = Some (stored_receipt rc) \<rparr>])
         else new = old \<or>
           orphan_message (message r) \<and> new = old @ [new_record (resultRecordId r) (stored_packet p)])"
  unfolding old_def new_def using assms(1-3) by (rule sqlite_ingest_effect)

definition demo_sqlite :: "(ref_db, u64) ingest_service" where
  "demo_sqlite = sqlite_service ref_engine (PlainVerify :: unit verify_build) [''key'' \<mapsto> ''PEM''] (mock_client demo_hash 0) demo_hash"

lemma demo_sqlite_packet: "packet_ok demo_sqlite demo_packet"
  using demo_packet_ok unfolding packet_ok_def demo_sqlite_def sqlite_service_def demo_service_def demo_verify_def
    ingest_service.simps by blast

definition demo_gateway :: "bool \<Rightarrow> (ref_db, u64) gateway" where
  "demo_gateway failing = new_gateway \<lparr> refRows = [], refSequence = 0, refChanges = 0, refFailing = failing \<rparr> mock_counter"

lemma demo_gateway_valid: "ref_valid (repositoryState (demo_gateway failing))"
  by (simp add: demo_gateway_def new_gateway_def ref_valid_def unique_txs_def max_rowid_def)

lemma demo_sqlite_accepts: "\<exists>r g'. Ingest demo_sqlite 2 demo_packet (demo_gateway False) = (Inr r, g') \<and> accepted r"
  unfolding Ingest_two_phase [OF demo_sqlite_packet]
  by (simp add: two_phase_def demo_sqlite_def sqlite_service_def sqlite_repository_def sq_Save_def sq_AttachReceipt_def engine_simps
      mock_client_def mock_SubmitHash_def Let_def demo_gateway_def new_gateway_def finish_simps max_rowid_def)

theorem sqlite_ingest_atomic_witness:
  "\<exists>r g' rc. Ingest demo_sqlite 2 demo_packet (demo_gateway False) = (Inr r, g') \<and>
     map RowToRecord (refRows (repositoryState g')) =
       [\<lparr> recordId = resultRecordId r, packet = stored_packet demo_packet, receipt = Some (stored_receipt rc) \<rparr>]"
proof -
  obtain r g' where run: "Ingest demo_sqlite 2 demo_packet (demo_gateway False) = (Inr r, g')" "accepted r"
    using demo_sqlite_accepts by blast
  from sqlite_ingest_atomic [OF ref.sqlite_engine_axioms demo_gateway_valid run(1) [unfolded demo_sqlite_def]] run
  show ?thesis by (auto simp: demo_gateway_def new_gateway_def)
qed



lemma two_phase_returns:
  "fst (Save (repository svc) p (repositoryState g)) = Inr i \<Longrightarrow> \<exists>r g'. two_phase svc ms p g = (Inr r, g')"
  by (auto simp: two_phase_def fail_after_save_def finishWith_def Let_def split: prod.splits sum.splits)

definition repeat_gateway :: "string \<Rightarrow> (ref_db, u64) gateway" where
  "repeat_gateway tx = new_gateway \<lparr> refRows = [demo_row 1 9 tx], refSequence = 1, refChanges = 0, refFailing = False \<rparr> mock_counter"

lemma repeat_gateway_simps:
  "ref_valid (repositoryState (repeat_gateway tx))" "refRows (repositoryState (repeat_gateway tx)) = [demo_row 1 9 tx]"
  "chainState (repeat_gateway tx) = mock_counter"
  by (simp_all add: repeat_gateway_def new_gateway_def ref_valid_def unique_txs_def max_rowid_def demo_row_def)


end
