(* ===== verification/Http_Message.thy ===== *)
theory Http_Message
  imports Http_Text Cpp_Regex Json_Parser
begin

text \<open>
  The text functions of \<^verbatim>\<open>src/api/http_server.cpp\<close>: reading a request from the blocks
  that \<^verbatim>\<open>recv\<close> returns, parsing it, its headers and its path, and writing responses.
\<close>

definition StatusText :: "int \<Rightarrow> string" where
  "StatusText statusCode =
     (if statusCode = 200 then ''OK''
      else if statusCode = 202 then ''Accepted''
      else if statusCode = 400 then ''Bad Request''
      else if statusCode = 404 then ''Not Found''
      else ''Internal Server Error'')"

definition ToLower :: "string \<Rightarrow> string" where
  "ToLower s = map to_lower s"

definition Trim :: "string \<Rightarrow> string" where
  "Trim s = rev (dropWhile is_space (rev (dropWhile is_space s)))"

section \<open>Reading a request\<close>

definition content_length_pattern :: pattern where
  "content_length_pattern = re_lit_icase ''Content-Length:'' @ re_star SpaceClass @ cap_plus DigitClass"

definition ParseContentLength :: "string \<Rightarrow> u64" where
  "ParseContentLength headers =
     (case group1 (regex_search content_length_pattern headers) of
        None \<Rightarrow> 0
      | Some ds \<Rightarrow> (case stoull ds 10 of Inr n \<Rightarrow> n | Inl _ \<Rightarrow> 0))"

definition kMaxRequestBytes :: nat where
  "kMaxRequestBytes = 1024 * 1024"

text \<open>
  The loop, over the blocks still to come; an empty block, or the end of the list, stands for a
  \<^verbatim>\<open>recv\<close> that returns 0 or fails. \<open>expected\<close> is \<^verbatim>\<open>expectedTotalSize\<close>
  once it is known; its sum is computed in 64 bits.
\<close>

fun read_loop :: "string \<Rightarrow> u64 option \<Rightarrow> string list \<Rightarrow> string" where
  "read_loop raw expected [] = raw"
| "read_loop raw expected (block # blocks) =
     (if \<not> length raw < kMaxRequestBytes then raw
      else if block = [] then raw
      else
        (let raw = raw @ block
         in case str_find (crlf @ crlf) raw of
              None \<Rightarrow> read_loop raw expected blocks
            | Some headerEnd \<Rightarrow>
                (case expected of
                   None \<Rightarrow>
                     (let contentLength = ParseContentLength (take headerEnd raw);
                          needed = of_nat headerEnd + 4 + contentLength
                      in if contentLength = 0 then raw
                         else if needed \<le> of_nat (length raw) then raw
                         else read_loop raw (Some needed) blocks)
                 | Some needed \<Rightarrow>
                     if needed \<le> of_nat (length raw) then raw else read_loop raw expected blocks)))"

definition ReadHttpRequest :: "string list \<Rightarrow> string" where
  "ReadHttpRequest blocks = read_loop [] None blocks"

section \<open>Parsing\<close>

record http_request =
  httpMethod :: string
  httpPath :: string
  httpHeaders :: string
  httpBody :: string

text \<open>\<^verbatim>\<open>stream >> word\<close>: skip white space, then read up to the next; \<open>None\<close> at the end.\<close>

definition read_word :: "string \<Rightarrow> (string \<times> string) option" where
  "read_word s =
     (let t = dropWhile is_space s
      in if t = [] then None
         else Some (takeWhile (\<lambda>c. \<not> is_space c) t, dropWhile (\<lambda>c. \<not> is_space c) t))"

definition ParseHttpRequest :: "string \<Rightarrow> http_request option" where
  "ParseHttpRequest raw =
     (case str_find (crlf @ crlf) raw of
        None \<Rightarrow> None
      | Some headerEnd \<Rightarrow>
          (let headers = take headerEnd raw; body = drop (headerEnd + 4) raw
           in case str_find crlf headers of
                None \<Rightarrow> None
              | Some firstLineEnd \<Rightarrow>
                  (let firstLine = take firstLineEnd headers
                   in case read_word firstLine of
                        None \<Rightarrow> None
                      | Some (reqMethod, r1) \<Rightarrow>
                          (case read_word r1 of
                             None \<Rightarrow> None
                           | Some (reqPath, r2) \<Rightarrow>
                               (case read_word r2 of
                                  None \<Rightarrow> None
                                | Some (httpVersion, r3) \<Rightarrow>
                                    Some \<lparr> httpMethod = reqMethod, httpPath = reqPath,
                                      httpHeaders = drop (firstLineEnd + 2) headers,
                                      httpBody = body \<rparr>)))))"

text \<open>The lines that repeated \<^verbatim>\<open>std::getline\<close> calls give.\<close>

function getlines :: "string \<Rightarrow> string list" where
  "getlines s =
     (if s = [] then []
      else (let line = takeWhile (\<lambda>c. c \<noteq> CHR 0x0A) s
            in line # getlines (drop (Suc (length line)) s)))"
  by pat_completeness auto
termination by (relation "measure length") auto

declare getlines.simps [simp del]

fun header_value_in :: "string \<Rightarrow> string list \<Rightarrow> string" where
  "header_value_in target [] = []"
| "header_value_in target (l # ls) =
     (let line = (if l \<noteq> [] \<and> last l = CHR 0x0D then butlast l else l)
      in case str_find '':'' line of
           None \<Rightarrow> header_value_in target ls
         | Some colon \<Rightarrow>
             if ToLower (Trim (take colon line)) = target then Trim (drop (colon + 1) line)
             else header_value_in target ls)"

definition GetHeaderValue :: "string \<Rightarrow> string \<Rightarrow> string" where
  "GetHeaderValue headers key = header_value_in (ToLower key) (getlines headers)"

definition StripQuery :: "string \<Rightarrow> string" where
  "StripQuery path = (case str_find ''?'' path of None \<Rightarrow> path | Some queryPos \<Rightarrow> take queryPos path)"

definition ExtractPathParam :: "string \<Rightarrow> string \<Rightarrow> string \<Rightarrow> string option" where
  "ExtractPathParam path pre suf =
     (if \<not> starts_with path pre then None
      else
        (let start = length pre
         in if suf = [] then
              (if start \<ge> length path then None
               else (let v = drop start path in if v = [] then None else Some v))
            else if length path \<le> start + length suf then None
            else if \<not> ends_with path suf then None
            else (let v = substr path start (length path - start - length suf)
                  in if v = [] then None else Some v)))"

section \<open>Writing\<close>

record http_response =
  statusCode :: int
  responseBody :: string
  contentType :: string

definition json_response :: "int \<Rightarrow> string \<Rightarrow> http_response" where
  "json_response status body = \<lparr> statusCode = status, responseBody = body, contentType = ''application/json'' \<rparr>"

definition BuildRawResponse :: "http_response \<Rightarrow> string" where
  "BuildRawResponse r =
     ''HTTP/1.1 '' @ dec_digits (statusCode r) @ '' '' @ StatusText (statusCode r) @ crlf @
     ''Content-Type: '' @ contentType r @ crlf @
     ''Content-Length: '' @ size_to_string (length (responseBody r)) @ crlf @
     ''Connection: close'' @ crlf @ crlf @ responseBody r"

definition BoolAsJson :: "bool \<Rightarrow> string" where
  "BoolAsJson b = (if b then ''true'' else ''false'')"

definition ReceiptToJson :: "blockchain_receipt option \<Rightarrow> string" where
  "ReceiptToJson rc =
     (case rc of
        None \<Rightarrow> ''null''
      | Some r \<Rightarrow>
          ''{\"txHash\":\"'' @ JsonEscape (txHash r) @ ''\",\"blockHeight\":'' @ u64_to_string (blockHeight r) @
          '',\"submittedAt\":\"'' @ JsonEscape (submittedAtIso8601 r) @ ''\"}'')"

definition RecordToJson :: "telemetry_record \<Rightarrow> string" where
  "RecordToJson r =
     ''{\"recordId\":'' @ u64_to_string (recordId r) @
     '',\"deviceId\":\"'' @ JsonEscape (deviceId (packet r)) @
     ''\",\"timestamp\":'' @ u64_to_string (timestamp (packet r)) @
     '',\"telemetry\":'' @ telemetryJson (packet r) @
     '',\"hash\":\"'' @ JsonEscape (hashHex (packet r)) @
     ''\",\"signature\":\"'' @ JsonEscape (signature (packet r)) @
     ''\",\"pubKeyId\":\"'' @ JsonEscape (pubKeyId (packet r)) @
     ''\",\"transport\":\"'' @ JsonEscape (transport (packet r)) @ ''\"'' @
     (if batchCode (packet r) \<noteq> [] then '',\"batchCode\":\"'' @ JsonEscape (batchCode (packet r)) @ ''\"'' else []) @
     '',\"receipt\":'' @ ReceiptToJson (receipt r) @ ''}''"

section \<open>The content length\<close>

text \<open>A header block whose first case-insensitive occurrence of the name carries the digits \<open>ds\<close>.\<close>

lemma match_here_lit_icase:
  "match_here (re_lit_icase w @ ps) s =
    (if map to_lower (take (length w) s) = map to_lower w then match_here ps (drop (length w) s) else None)"
proof (induction w arbitrary: s)
  case (Cons c w)
  then show ?case
    by (cases s) (auto simp: re_lit_icase_def match_here_one simp del: match_here.simps)
qed (simp add: re_lit_icase_def)

definition names_length :: "string \<Rightarrow> bool" where
  "names_length s \<longleftrightarrow> map to_lower (take 15 s) = ''content-length:''"

lemma match_content_length:
  "match_here content_length_pattern s =
    (if names_length s \<and> takeWhile is_digit (dropWhile is_space (drop 15 s)) \<noteq> []
     then Some [takeWhile is_digit (dropWhile is_space (drop 15 s))] else None)"
proof -
  have name: "map to_lower ''Content-Length:'' = ''content-length:''" by code_simp
  have length_name: "length ''Content-Length:'' = 15" by simp
  have out: "starts_outside (cap_plus DigitClass) SpaceClass"
    by (auto simp: cap_plus_def dest: digit_not_space)
  have plus: "match_here (cap_plus DigitClass) r =
      (if takeWhile is_digit r \<noteq> [] then Some [takeWhile is_digit r] else None)" for r
    unfolding cap_plus_def match_here_last_greedy
    by (cases "takeWhile is_digit r") (auto simp: class_run_def)
  have "match_here (re_star SpaceClass @ cap_plus DigitClass) r = match_here (cap_plus DigitClass) (dropWhile is_space r)" for r
    using match_here_greedy [OF out, of 0 False r] by (simp add: re_star_def option.map_ident del: match_here.simps)
  then show ?thesis
    unfolding content_length_pattern_def match_here_lit_icase name plus names_length_def length_name by simp
qed

text \<open>The header lines before the one that names the length have no such name in them.\<close>

definition no_length_name :: "string \<Rightarrow> string \<Rightarrow> bool" where
  "no_length_name pre s \<longleftrightarrow> (\<forall>j < length pre. \<not> names_length (drop j pre @ s))"

lemma ParseContentLength_at:
  assumes "no_length_name pre (name @ blanks @ ds @ rest)" "length name = 15" "names_length name"
    and "\<forall>c \<in> set blanks. is_space c" "ds \<noteq> []" "\<forall>c \<in> set ds. is_digit c"
    and "rest = [] \<or> \<not> is_digit (hd rest)"
  shows "ParseContentLength (pre @ name @ blanks @ ds @ rest) = (case stoull ds 10 of Inr n \<Rightarrow> n | Inl _ \<Rightarrow> 0)"
proof -
  let ?s = "name @ blanks @ ds @ rest"
  have "regex_search content_length_pattern (pre @ ?s) = regex_search content_length_pattern ?s"
    using assms(1) by (intro regex_search_skip) (simp add: match_content_length no_length_name_def)
  moreover have drop: "dropWhile is_space (drop 15 ?s) = ds @ rest"
  proof -
    have "dropWhile is_space (blanks @ ds @ rest) = dropWhile is_space (ds @ rest)"
      using assms(4) by (induction blanks) auto
    also have "\<dots> = ds @ rest" using assms(5,6) by (cases ds) (auto simp: digit_not_space)
    finally show ?thesis using assms(2) by simp
  qed
  moreover have "takeWhile is_digit (ds @ rest) = ds"
    using assms(6,7) by (intro takeWhile_append_first) auto
  ultimately have "match_here content_length_pattern ?s = Some [ds]"
    using assms(2,3,5) by (simp add: match_content_length names_length_def)
  with \<open>regex_search content_length_pattern (pre @ ?s) = _\<close> regex_search_here
  show ?thesis by (simp add: ParseContentLength_def group1_def)
qed

section \<open>Reading does not depend on the segmentation\<close>

lemma str_find_length: "str_find pat s = Some i \<Longrightarrow> i + length pat \<le> length s"
proof (induction s arbitrary: i)
  case (Cons c cs)
  then show ?case by (auto split: if_splits dest: prefix_length_le)
qed (auto split: if_splits)

lemma str_find_stable: "str_find pat s = Some i \<Longrightarrow> str_find pat (s @ r) = Some i"
proof (induction s arbitrary: i)
  case (Cons c cs)
  show ?case
  proof (cases "prefix pat (c # cs)")
    case True
    then have "prefix pat ((c # cs) @ r)" by (rule prefix_prefix)
    with True Cons.prems show ?thesis by simp
  next
    case False
    with Cons.prems obtain k where k: "str_find pat cs = Some k" "i = Suc k" by auto
    from str_find_length [OF k(1)] have "length pat \<le> length cs" by simp
    with False have "\<not> prefix pat ((c # cs) @ r)" by (metis le_SucI length_Cons prefix_append prefix_length_prefix prefixI)
    with Cons.IH [OF k(1)] k(2) show ?thesis by simp
  qed
qed (auto split: if_splits, cases r, auto)

text \<open>A request: no empty line before the end of its header block, and the announced length.\<close>

definition announced_request :: "string \<Rightarrow> string \<Rightarrow> bool" where
  "announced_request head body \<longleftrightarrow>
     str_find (crlf @ crlf) (head @ crlf @ crlf @ body) = Some (length head) \<and>
     ParseContentLength head = of_nat (length body)"

lemma read_loop_segments:
  assumes R: "announced_request head body" "R = head @ crlf @ crlf @ body" "length R \<le> kMaxRequestBytes"
    and "raw @ concat blocks = R" "raw \<noteq> R" "\<forall>b \<in> set blocks. b \<noteq> []"
    and "case expected of None \<Rightarrow> str_find (crlf @ crlf) raw = None
         | Some needed \<Rightarrow> needed = of_nat (length R) \<and> str_find (crlf @ crlf) raw \<noteq> None"
  shows "read_loop raw expected (blocks @ later) = R"
  using assms(4-)
proof (induction blocks arbitrary: raw expected)
  case (Cons b blocks)
  let ?raw = "raw @ b"
  have R_raw: "R = ?raw @ concat blocks" using Cons.prems(1) by simp
  have small: "length raw < kMaxRequestBytes" "b \<noteq> []" using Cons.prems(1,2,3) R(3) by (auto simp: R_raw simp flip: length_greater_0_conv)
  have big: "length R < 2 ^ 64" "length ?raw < 2 ^ 64"
    using R(3) R_raw by (auto simp: kMaxRequestBytes_def)
  then have le: "of_nat (length R) \<le> (of_nat (length ?raw) :: u64) \<longleftrightarrow> ?raw = R"
  proof -
    have "of_nat (length R) \<le> (of_nat (length ?raw) :: u64) \<longleftrightarrow> length R \<le> length ?raw"
      using big by (simp add: word_of_nat_less_eq_iff take_bit_nat_eq_self del: of_nat_add length_append)
    also have "\<dots> \<longleftrightarrow> ?raw = R" by (subst (1 2) R_raw) (simp only: length_append append_self_conv, auto)
    finally show ?thesis .
  qed
  have find_R: "str_find (crlf @ crlf) R = Some (length head)" using R(1,2) by (simp add: announced_request_def)
  show ?case
  proof (cases "str_find (crlf @ crlf) ?raw")
    case None
    have "str_find (crlf @ crlf) raw = None" using str_find_stable [of "crlf @ crlf" raw _ b] None by (metis not_Some_eq)
    then have e: "expected = None" using Cons.prems(4) by (cases expected) auto
    have "?raw \<noteq> R" using None find_R by auto
    with Cons.IH [of ?raw None] Cons.prems None small e show ?thesis by simp
  next
    case (Some i)
    then have i: "i = length head" using str_find_stable [OF Some, of "concat blocks"] find_R R_raw by simp
    show ?thesis
    proof (cases expected)
      case None
      have "take i ?raw = head"
        using str_find_length [OF Some] R_raw R(2) i by (metis append_eq_append_conv_if append_eq_conv_conj le_add1 order_trans take_append)
      then have len: "ParseContentLength (take i ?raw) = of_nat (length body)" using R(1) by (simp add: announced_request_def)
      have whole: "length body = 0 \<Longrightarrow> ?raw = R"
      proof -
        assume "length body = 0"
        then have "length R \<le> length ?raw" using str_find_length [OF Some] i R(2) by simp
        then show "?raw = R" using R_raw by simp
      qed
      have zero: "of_nat (length body) = (0 :: u64) \<longleftrightarrow> length body = 0"
        using big(1) R(2) by (simp add: word_of_nat_eq_0_iff nat_dvd_not_less) (auto dest: dvd_imp_le)
      have total: "of_nat i + 4 + of_nat (length body) = (of_nat (length R) :: u64)"
        by (simp add: i R(2))
      show ?thesis
      proof (cases "?raw = R")
        case True
        then show ?thesis using small Some None len le by (simp add: Let_def total del: str_find.simps)
      next
        case False
        then have "length body \<noteq> 0" using whole by blast
        with False Cons.IH [of ?raw "Some (of_nat (length R))"] Cons.prems small Some None len le zero
        show ?thesis by (simp add: Let_def total del: str_find.simps)
      qed
    next
      case (Some needed)
      then have "needed = of_nat (length R)" using Cons.prems(4) by simp
      with Some \<open>str_find (crlf @ crlf) ?raw = Some i\<close> Cons.IH [of ?raw expected] Cons.prems small le
      show ?thesis by (cases "?raw = R") (simp_all del: str_find.simps)
    qed
  qed
qed simp

lemma ReadHttpRequest_blocks:
  assumes "announced_request head body" and "concat blocks = head @ crlf @ crlf @ body"
    and "length (concat blocks) \<le> 1024 * 1024" and "\<forall>b \<in> set blocks. b \<noteq> []"
  shows "ReadHttpRequest (blocks @ later) = concat blocks"
  unfolding ReadHttpRequest_def
  by (rule read_loop_segments [OF assms(1,2)]) (use assms in \<open>simp_all add: kMaxRequestBytes_def\<close>)


text \<open>
  C21: reading a request does not depend on how the network cuts it. A request of at most 1 MiB
  that announces the length of its body is read back whole and exactly, whatever nonempty blocks
  \<^verbatim>\<open>recv\<close> returns it in, and nothing that follows it is taken.
\<close>
theorem ReadHttpRequest_segments:
  assumes "announced_request head body" and "concat blocks = head @ crlf @ crlf @ body"
    and "length (concat blocks) \<le> 1024 * 1024" and "\<forall>b \<in> set blocks. b \<noteq> []"
  shows "ReadHttpRequest (blocks @ later) = concat blocks"
  using assms by (rule ReadHttpRequest_blocks)

theorem ReadHttpRequest_segments_witness:
  "ReadHttpRequest [''POST / HTTP/1.1'' @ crlf @ ''content-'', ''LENGTH: 2'' @ crlf, crlf @ ''{'', ''}'', ''junk''] =
     ''POST / HTTP/1.1'' @ crlf @ ''content-LENGTH: 2'' @ crlf @ crlf @ ''{}''"
proof -
  let ?pre = "''POST / HTTP/1.1'' @ crlf" and ?name = "''content-LENGTH:''" and ?body = "''{}''"
  let ?blocks = "[?pre @ ''content-'', ''LENGTH: 2'' @ crlf, crlf @ ''{'', ''}'']"
  have "names_length ?name" by code_simp
  moreover have "no_length_name ?pre (?name @ '' '' @ ''2'' @ [])" by code_simp
  moreover have "stoull ''2'' 10 = Inr 2" by code_simp
  ultimately have "ParseContentLength (?pre @ ?name @ '' '' @ ''2'' @ []) = 2"
    by (subst ParseContentLength_at) (simp_all add: is_space_def is_digit_def)
  then have "announced_request (?pre @ ?name @ '' '' @ ''2'') ?body"
    by (simp add: announced_request_def)
  from ReadHttpRequest_segments [OF this, of ?blocks "[''junk'']"] show ?thesis by simp
qed


section \<open>Bounds of the reading\<close>

lemma read_loop_length:
  assumes "\<forall>b \<in> set blocks. length b \<le> m" and "length raw < kMaxRequestBytes + m"
  shows "length (read_loop raw expected blocks) < kMaxRequestBytes + m"
  using assms
  by (induction blocks arbitrary: raw expected)
    (auto simp: Let_def simp del: str_find.simps split: option.splits)

lemma read_loop_prefix: "prefix (read_loop raw expected blocks) (raw @ concat blocks)"
proof (induction blocks arbitrary: raw expected)
  case (Cons b blocks)
  have "prefix (read_loop (raw @ b) e blocks) (raw @ concat (b # blocks))" for e
    using Cons.IH [of "raw @ b" e] by simp
  then show ?case by (auto simp: Let_def simp del: str_find.simps split: option.splits)
qed simp

text \<open>
  C36: the memory that a client can make the server hold. What \<^verbatim>\<open>ReadHttpRequest\<close> returns is
  a prefix of what the client sent and shorter than 1 MiB and one buffer of 4096 bytes, whatever
  length the client announces and however much it sends.
\<close>
theorem ReadHttpRequest_bounded:
  assumes "\<forall>b \<in> set blocks. length b \<le> 4096"
  shows "prefix (ReadHttpRequest blocks) (concat blocks) \<and> length (ReadHttpRequest blocks) < 1024 * 1024 + 4096"
  using read_loop_length [OF assms, of "[]" None] read_loop_prefix [of "[]" None blocks]
  by (simp add: ReadHttpRequest_def kMaxRequestBytes_def)

theorem ReadHttpRequest_bounded_witness: "length (ReadHttpRequest [''GET'', ''x'']) < 1024 * 1024 + 4096"
  using ReadHttpRequest_bounded [of "[''GET'', ''x'']"] by simp

text \<open>
  The sum of header size and announced length is computed modulo \<open>2 ^ 64\<close>. A length so large
  that the sum wraps below the size of the header block ends the reading with the first block that
  completes the header block, and the rest of the body is not read.
\<close>
lemma ReadHttpRequest_length_wraps:
  assumes "str_find (crlf @ crlf) (head @ crlf @ crlf @ part) = Some (length head)"
    and "length (head @ crlf @ crlf @ part) \<le> 4096"
    and "2 ^ 64 \<le> length head + 4 + unat (ParseContentLength head)"
  shows "ReadHttpRequest ((head @ crlf @ crlf @ part) # later) = head @ crlf @ crlf @ part"
proof -
  let ?raw = "head @ crlf @ crlf @ part" and ?n = "ParseContentLength head"
  let ?needed = "of_nat (length head) + 4 + ?n"
  have n: "unat ?n < 2 ^ 64" using unsigned_less [of ?n, where ?'a = nat] by simp
  have "?needed = of_nat (length head + 4 + unat ?n)" by simp
  also have "\<dots> = of_nat (length head + 4 + unat ?n - 2 ^ 64)"
    using assms(3) by (simp add: of_nat_diff)
  finally have needed: "?needed = of_nat (length head + 4 + unat ?n - 2 ^ 64)" .
  have size: "length ?raw = length head + 4 + length part" by simp
  have "length head + 4 + unat ?n - 2 ^ 64 \<le> length ?raw" unfolding size using n by linarith
  then have "?needed \<le> of_nat (length ?raw)"
    unfolding needed using assms(2)
    by (subst word_of_nat_less_eq_iff) (simp add: take_bit_nat_eq_self del: length_append)
  moreover have "take (length head) ?raw = head" by simp
  moreover have "?raw \<noteq> []" by simp
  ultimately show ?thesis
    using assms(1) by (simp add: ReadHttpRequest_def kMaxRequestBytes_def Let_def del: str_find.simps)
qed


lemma ReadHttpRequest_length_wraps_witness:
  "ReadHttpRequest [''POST / HTTP/1.1'' @ crlf @ ''Content-Length:18446744073709551615'' @ crlf @ crlf @ ''{'', ''}''] =
     ''POST / HTTP/1.1'' @ crlf @ ''Content-Length:18446744073709551615'' @ crlf @ crlf @ ''{''"
proof -
  let ?pre = "''POST / HTTP/1.1'' @ crlf" and ?name = "''Content-Length:''" and ?digits = "''18446744073709551615''"
  have "names_length ?name" by code_simp
  moreover have "no_length_name ?pre (?name @ [] @ ?digits @ [])" by code_simp
  moreover have "stoull ?digits 10 = Inr 18446744073709551615" by code_simp
  ultimately have "ParseContentLength (?pre @ ?name @ [] @ ?digits @ []) = 18446744073709551615"
    by (subst ParseContentLength_at) (simp_all add: is_space_def is_digit_def)
  then show ?thesis
    using ReadHttpRequest_length_wraps [of "?pre @ ?name @ ?digits" "''{''" "[''}'']"] by simp
qed

section \<open>Parsing what a client writes\<close>

text \<open>A header block as \<^verbatim>\<open>ParseHttpRequest\<close> keeps it: its lines joined by CR LF.\<close>

definition header_block :: "string list \<Rightarrow> string" where
  "header_block ls = take (length (http_lines ls) - 2) (http_lines ls)"

definition http_word :: "string \<Rightarrow> bool" where
  "http_word w \<longleftrightarrow> w \<noteq> [] \<and> (\<forall>c \<in> set w. \<not> is_space c)"

lemma space_CR [simp]: "is_space (CHR 0x0D)" "is_space (CHR '' '')" "is_space (CHR 0x0A)"
  by (simp_all add: is_space_def)

lemma http_word_no_CR: "http_word w \<Longrightarrow> CHR 0x0D \<notin> set w"
  by (auto simp: http_word_def)

lemma read_word_word:
  assumes "http_word w" "r = [] \<or> is_space (hd r)" "\<forall>c \<in> set blanks. is_space c"
  shows "read_word (blanks @ w @ r) = Some (w, r)"
proof -
  have "dropWhile is_space (blanks @ w @ r) = w @ r"
    using assms(1,3) by (intro dropWhile_append_first) (cases w; auto simp: http_word_def)+
  moreover have "takeWhile (\<lambda>c. \<not> is_space c) (w @ r) = w" "dropWhile (\<lambda>c. \<not> is_space c) (w @ r) = r"
    using assms(1,2) unfolding http_word_def
    by (cases r; simp)+
  ultimately show ?thesis using assms(1) by (simp add: read_word_def http_word_def)
qed

lemma header_block_message: "take (length (http_lines ls) - 2) (http_message ls body) = header_block ls"
  by (simp add: header_block_def http_message_def)

lemma header_block_Cons: "ls \<noteq> [] \<Longrightarrow> header_block (l # ls) = l @ crlf @ header_block ls"
  by (cases ls) (simp_all add: header_block_def eval_nat_numeral Suc_diff_le)

lemma header_block_single [simp]: "header_block [l] = l"
  by (simp add: header_block_def)

lemma ParseHttpRequest_lines:
  assumes "http_word m" "http_word p" "http_word v" and "\<forall>h \<in> set headers. http_line h"
  shows "ParseHttpRequest (http_message ((m @ '' '' @ p @ '' '' @ v) # headers) body) =
    (if headers = [] then None
     else Some \<lparr> httpMethod = m, httpPath = p, httpHeaders = header_block headers, httpBody = body \<rparr>)"
proof -
  let ?l = "m @ '' '' @ p @ '' '' @ v" and ?msg = "http_message ((m @ '' '' @ p @ '' '' @ v) # headers) body"
  have l: "http_line ?l" using assms(1-3) by (auto simp: http_line_def http_word_no_CR)
  then have all: "\<forall>h \<in> set (?l # headers). http_line h" using assms(4) by simp
  have found: "str_find (crlf @ crlf) ?msg = Some (length (http_lines (?l # headers)) - 2)"
    by (rule find_header_end [OF _ all]) simp
  have rest: "drop (length (http_lines (?l # headers)) - 2 + 4) ?msg = body"
    by (rule drop_http_lines) simp
  have head: "take (length (http_lines (?l # headers)) - 2) ?msg = header_block (?l # headers)"
    by (rule header_block_message)
  have words: "read_word ?l = Some (m, '' '' @ p @ '' '' @ v)"
    "read_word ('' '' @ p @ '' '' @ v) = Some (p, '' '' @ v)" "read_word ('' '' @ v) = Some (v, [])"
    using read_word_word [OF assms(1), of "'' '' @ p @ '' '' @ v" "[]"]
      read_word_word [OF assms(2), of "'' '' @ v" "'' ''"] read_word_word [OF assms(3), of "[]" "'' ''"] by simp_all
  show ?thesis
  proof (cases "headers = []")
    case True
    have "str_find crlf ?l = None" using l by (intro str_find_none_hd) (auto simp: http_line_def)
    with True show ?thesis
      by (simp only: ParseHttpRequest_def found [unfolded True] head [unfolded True] Let_def option.case
          header_block_single if_True refl)
  next
    case False
    then have block: "header_block (?l # headers) = ?l @ crlf @ header_block headers" by (rule header_block_Cons)
    have "str_find crlf (?l @ crlf @ header_block headers) = Some (length ?l)"
      using str_find_skip_hd [of crlf ?l "crlf @ header_block headers"] l
      by (simp add: http_line_def str_find_here del: str_find.simps) (simp add: string_simps)
    moreover have "take (length l) (l @ crlf @ r) = l" "drop (length l + 2) (l @ crlf @ r) = r" for l r :: string
      by simp_all
    ultimately show ?thesis
      using False by (simp only: ParseHttpRequest_def found head rest block words Let_def option.case prod.case if_False)
  qed
qed


text \<open>
  C29: the requests that the parser accepts. A message with a request line of three words and at
  least one header line is parsed into its method, its target, its header block and its body,
  byte for byte. A message whose only line is the request line, as HTTP/1.0 allows, is refused.
\<close>
theorem ParseHttpRequest_message:
  assumes "http_word m" "http_word p" "http_word v" and "\<forall>h \<in> set headers. http_line h"
  shows "ParseHttpRequest (http_message ((m @ '' '' @ p @ '' '' @ v) # headers) body) =
    (if headers = [] then None
     else Some \<lparr> httpMethod = m, httpPath = p, httpHeaders = header_block headers, httpBody = body \<rparr>)"
  using assms by (rule ParseHttpRequest_lines)

theorem ParseHttpRequest_message_witness:
  "ParseHttpRequest (''GET /health HTTP/1.1'' @ crlf @ ''Host: a'' @ crlf @ crlf) =
     Some \<lparr> httpMethod = ''GET'', httpPath = ''/health'', httpHeaders = ''Host: a'', httpBody = [] \<rparr>
   \<and> ParseHttpRequest (''GET /health HTTP/1.0'' @ crlf @ crlf) = None"
  using ParseHttpRequest_message [of "''GET''" "''/health''" "''HTTP/1.1''" "[''Host: a'']" "[]"]
    ParseHttpRequest_message [of "''GET''" "''/health''" "''HTTP/1.0''" "[]" "[]"]
  by (simp add: http_word_def is_space_def http_message_def http_line_def)

section \<open>Reading the headers\<close>

text \<open>A header as name and value, neither with white space at its ends.\<close>

definition header_line :: "string \<times> string \<Rightarrow> string" where
  "header_line h = fst h @ '': '' @ snd h"

definition trimmed :: "string \<Rightarrow> bool" where
  "trimmed s \<longleftrightarrow> (s \<noteq> [] \<longrightarrow> \<not> is_space (hd s) \<and> \<not> is_space (last s))"

definition header_ok :: "string \<times> string \<Rightarrow> bool" where
  "header_ok h \<longleftrightarrow> fst h \<noteq> [] \<and> trimmed (fst h) \<and> trimmed (snd h) \<and> CHR '':'' \<notin> set (fst h) \<and>
     (\<forall>c \<in> set (fst h @ snd h). c \<noteq> CHR 0x0D \<and> c \<noteq> CHR 0x0A)"

lemma dropWhile_hd: "s = [] \<or> \<not> P (hd s) \<Longrightarrow> dropWhile P s = s"
  by (cases s) auto

lemma Trim_trimmed:
  assumes "trimmed s" "\<forall>c \<in> set blanks. is_space c"
  shows "Trim (blanks @ s) = s"
proof -
  have "dropWhile is_space (blanks @ s) = s"
    using assms by (intro dropWhile_append_first) (auto simp: trimmed_def)
  moreover have "dropWhile is_space (rev s) = rev s"
    using assms(1) by (intro dropWhile_hd) (auto simp: trimmed_def hd_rev)
  ultimately show ?thesis by (simp add: Trim_def)
qed

lemma takeWhile_stop: "c \<notin> set l \<Longrightarrow> takeWhile (\<lambda>x. x \<noteq> c) (l @ c # s) = l"
  by (induction l) auto

lemma getlines_Cons: "CHR 0x0A \<notin> set l \<Longrightarrow> getlines (l @ CHR 0x0A # s) = l # getlines s"
  by (subst getlines.simps) (simp add: Let_def takeWhile_stop)

lemma getlines_last: "CHR 0x0A \<notin> set l \<Longrightarrow> l \<noteq> [] \<Longrightarrow> getlines l = [l]"
proof -
  assume "CHR 0x0A \<notin> set l" "l \<noteq> []"
  then have "takeWhile (\<lambda>c. c \<noteq> CHR 0x0A) l = l" by (intro takeWhile_all) auto
  with \<open>l \<noteq> []\<close> show ?thesis by (subst getlines.simps) (simp only: Let_def if_False drop_all le_SucI order_refl getlines.simps [of "[]"] simp_thms if_True)
qed

lemma getlines_block:
  assumes "\<forall>l \<in> set ls. l \<noteq> [] \<and> CHR 0x0D \<notin> set l \<and> CHR 0x0A \<notin> set l"
  shows "getlines (header_block ls) = map (\<lambda>l. l @ [CHR 0x0D]) (butlast ls) @ (if ls = [] then [] else [last ls])"
  using assms
proof (induction ls)
  case Nil
  then show ?case by (simp add: header_block_def getlines.simps)
next
  case (Cons l ls)
  show ?case
  proof (cases "ls = []")
    case True
    with Cons.prems show ?thesis by (simp add: getlines_last)
  next
    case False
    have "getlines ((l @ [CHR 0x0D]) @ CHR 0x0A # header_block ls) = (l @ [CHR 0x0D]) # getlines (header_block ls)"
      using Cons.prems by (intro getlines_Cons) simp
    with False Cons show ?thesis by (simp add: header_block_Cons)
  qed
qed

lemma header_value_step:
  assumes "header_ok h" "l = header_line h \<or> l = header_line h @ [CHR 0x0D]"
  shows "header_value_in target (l # ls) =
    (if ToLower (fst h) = target then snd h else header_value_in target ls)"
proof -
  have "CHR 0x0D \<noteq> last (header_line h)"
    using assms(1) by (cases "snd h" rule: rev_cases) (auto simp: header_line_def header_ok_def)
  then have line: "(if l \<noteq> [] \<and> last l = CHR 0x0D then butlast l else l) = header_line h"
    using assms(2) by auto
  have colon: "str_find '':'' (header_line h) = Some (length (fst h))"
    using assms(1) str_find_skip_hd [of "'':''" "fst h" "'': '' @ snd h"]
    by (simp add: header_line_def header_ok_def)
  have "Trim (fst h) = fst h" "Trim ('' '' @ snd h) = snd h"
    using assms(1) Trim_trimmed [of "fst h" "[]"] Trim_trimmed [of "snd h" "'' ''"] by (simp_all add: header_ok_def)
  with line colon show ?thesis by (simp add: Let_def del: str_find.simps) (simp add: header_line_def)
qed

lemma GetHeaderValue_block:
  assumes "\<forall>h \<in> set hs. header_ok h"
  shows "GetHeaderValue (header_block (map header_line hs)) key =
    value_or (first_some (\<lambda>h. if ToLower (fst h) = ToLower key then Some (snd h) else None) hs) []"
proof -
  have ls: "\<forall>l \<in> set (map header_line hs). l \<noteq> [] \<and> CHR 0x0D \<notin> set l \<and> CHR 0x0A \<notin> set l"
    using assms by (auto simp: header_line_def header_ok_def)
  have "header_value_in target (map (\<lambda>l. l @ [CHR 0x0D]) (butlast (map header_line hs)) @
      (if hs = [] then [] else [last (map header_line hs)])) =
    value_or (first_some (\<lambda>h. if ToLower (fst h) = target then Some (snd h) else None) hs) []" for target
    using assms
    by (induction hs) (auto simp: header_value_step value_or_def simp del: header_value_in.simps(2) split: if_splits)
  then show ?thesis using getlines_block [OF ls] by (simp add: GetHeaderValue_def)
qed

text \<open>
  Header lookup. On a header block of name and value lines \<^verbatim>\<open>GetHeaderValue\<close> returns the
  value of the first header whose name is the key up to the case of letters, without the blanks
  around it, and the empty string when there is none.
\<close>
lemma GetHeaderValue_first:
  assumes "\<forall>h \<in> set hs. header_ok h"
  shows "GetHeaderValue (header_block (map header_line hs)) key =
    value_or (first_some (\<lambda>h. if ToLower (fst h) = ToLower key then Some (snd h) else None) hs) []"
  using assms by (rule GetHeaderValue_block)

lemma GetHeaderValue_first_witness:
  "GetHeaderValue (header_block [''Host: a'', ''UPGRADE: websocket'']) ''Upgrade'' = ''websocket''"
proof -
  let ?hs = "[(''Host'', ''a''), (''UPGRADE'', ''websocket'')]"
  have "\<forall>h \<in> set ?hs. header_ok h" by code_simp
  moreover have "map header_line ?hs = [''Host: a'', ''UPGRADE: websocket'']" by (simp add: header_line_def)
  moreover have "first_some (\<lambda>h. if ToLower (fst h) = ToLower ''Upgrade'' then Some (snd h) else None) ?hs = Some ''websocket''"
    by code_simp
  ultimately show ?thesis using GetHeaderValue_first [of ?hs "''Upgrade''"] by (simp add: value_or_def)
qed

section \<open>Paths\<close>

lemma ExtractPathParam_parts: "ExtractPathParam path pre suf = Some v \<longleftrightarrow> path = pre @ v @ suf \<and> v \<noteq> []"
proof
  assume some: "ExtractPathParam path pre suf = Some v"
  then obtain r where r: "path = pre @ r"
    by (auto simp: ExtractPathParam_def starts_with_def prefix_def split: if_splits)
  show "path = pre @ v @ suf \<and> v \<noteq> []"
  proof (cases "suf = []")
    case True
    with some r show ?thesis by (auto simp: ExtractPathParam_def starts_with_def Let_def split: if_splits)
  next
    case False
    with some r have "length suf < length r" "ends_with path suf" "v = take (length r - length suf) r"
      by (auto simp: ExtractPathParam_def starts_with_def Let_def substr_def split: if_splits)
    moreover from this obtain u where "path = u @ suf" by (auto simp: ends_with_def suffix_def)
    ultimately show ?thesis using r by (auto simp: append_eq_append_conv2)
  qed
next
  assume "path = pre @ v @ suf \<and> v \<noteq> []"
  then show "ExtractPathParam path pre suf = Some v"
    by (auto simp: ExtractPathParam_def starts_with_def ends_with_def substr_def suffix_def Let_def intro!: exI [of _ "pre @ v"])
qed

text \<open>
  Path parameters. A path matches a route exactly when it is the prefix, a nonempty
  parameter and the suffix of the route, and the parameter is what is between them; the
  suffix may be empty, and prefix and suffix never overlap.
\<close>
lemma ExtractPathParam_iff: "ExtractPathParam path pre suf = Some v \<longleftrightarrow> path = pre @ v @ suf \<and> v \<noteq> []"
  by (rule ExtractPathParam_parts)

text \<open>
  \<^verbatim>\<open>StripQuery\<close> cuts at the first question mark and is idempotent.
\<close>
lemma StripQuery_query:
  "CHR ''?'' \<notin> set p \<Longrightarrow> StripQuery (p @ ''?'' @ q) = p"
  "CHR ''?'' \<notin> set p \<Longrightarrow> StripQuery p = p"
  by (auto simp: StripQuery_def str_find_char takeWhile_stop)

section \<open>Where a length is announced\<close>

lemma http_lines_block: "ls \<noteq> [] \<Longrightarrow> http_lines ls = header_block ls @ crlf"
proof (induction ls)
  case (Cons l ls)
  then show ?case by (cases "ls = []") (simp_all add: header_block_Cons)
qed simp

lemma names_lengthD:
  assumes "names_length t"
  shows "15 \<le> length t" "CHR 0x0D \<notin> set (take 15 t)" "CHR 0x0A \<notin> set (take 15 t)" "t ! 14 = CHR '':''"
proof -
  have eq: "map to_lower (take 15 t) = ''content-length:''" using assms by (simp add: names_length_def)
  then show len: "15 \<le> length t" by (auto dest: arg_cong [of _ _ length])
  have low: "to_lower (CHR 0x0D) = CHR 0x0D" "to_lower (CHR 0x0A) = CHR 0x0A" by (simp_all add: to_lower_def)
  have "to_lower ` set (take 15 t) = set ''content-length:''" using eq by (metis set_map)
  then show "CHR 0x0D \<notin> set (take 15 t)" "CHR 0x0A \<notin> set (take 15 t)"
    using low by (auto dest!: equalityD1 [THEN subsetD, OF _ imageI] simp del: set_take_subset)
  have "to_lower (t ! 14) = CHR '':''" using len arg_cong [OF eq, of "\<lambda>s. s ! 14"] by simp
  then show "t ! 14 = CHR '':''" by (auto simp: to_lower_def char_of_eq_iff take_bit_eq_mod split: if_splits)
qed

lemma all_less_add: "(\<forall>j < m + n. P j) \<longleftrightarrow> (\<forall>j < m. P j) \<and> (\<forall>j < (n :: nat). P (m + j))"
  by (metis add_less_cancel_left le_add_diff_inverse not_less trans_less_add1)

lemma no_length_name_append:
  "no_length_name (a @ b) s \<longleftrightarrow> no_length_name a (b @ s) \<and> no_length_name b s"
  by (simp add: no_length_name_def all_less_add)

text \<open>A line without a colon beyond its fourteenth character does not hold the name.\<close>

lemma no_length_name_line:
  assumes "CHR '':'' \<notin> set (drop 14 l)"
  shows "no_length_name (l @ crlf) s"
  unfolding no_length_name_def
proof (intro allI impI notI)
  fix j assume j: "j < length (l @ crlf)" and name: "names_length (drop j (l @ crlf) @ s)"
  note D = names_lengthD [OF name]
  show False
  proof (cases "j + 14 < length l")
    case True
    then have "l ! (j + 14) \<in> set (drop 14 l)" by (auto simp: in_set_conv_nth intro!: exI [of _ j] simp: add.commute)
    moreover have "14 < length l - j" "j \<le> length l" using True by auto
    ultimately show False using D(4) assms by (simp add: nth_append)
  next
    case False
    let ?t = "drop j (l @ crlf) @ s" and ?k = "length l - j"
    have "?t ! ?k \<in> {CHR 0x0D, CHR 0x0A}" using j by (cases "j \<le> length l") (auto simp: nth_append not_le less_Suc_eq)
    moreover have "?t ! ?k \<in> set (take 15 ?t)"
      using False D(1) nth_mem [of ?k "take 15 ?t"] by (simp del: take_append drop_append append_assoc)
    ultimately show False using D(2,3) by auto
  qed
qed

lemma no_length_name_lines:
  "\<forall>l \<in> set ls. CHR '':'' \<notin> set (drop 14 l) \<Longrightarrow> no_length_name (http_lines ls) s"
proof (induction ls)
  case (Cons l ls)
  then show ?case
    using no_length_name_line [of l "http_lines ls @ s"] no_length_name_append [of "l @ crlf" "http_lines ls" s] by simp
qed (simp add: no_length_name_def)

end
