(* ===== verification/WebSocket_Codec.thy ===== *)
theory WebSocket_Codec
  imports Prelude
begin

text \<open>
  The WebSocket part of \<^verbatim>\<open>src/api/http_server.cpp\<close>: SHA-1 and Base64 for the
  handshake key, and the text frames the server sends. Strings hold bytes as characters;
  \<open>bytes_of\<close> reads them as 8-bit words.
\<close>

definition bytes_of :: "string \<Rightarrow> u8 list" where
  "bytes_of s = map of_char s"

definition char_of_word :: "'a::len word \<Rightarrow> char" where
  "char_of_word w = char_of (uint w)"

section \<open>SHA-1\<close>

unbundle bit_operations_syntax

definition pad_missing :: "nat \<Rightarrow> nat" where
  "pad_missing n = (if n mod 64 \<le> 56 then 56 - n mod 64 else 120 - n mod 64)"

lemma pad_missing_Suc: "n mod 64 \<noteq> 56 \<Longrightarrow> pad_missing n = Suc (pad_missing (Suc n))"
proof -
  assume "n mod 64 \<noteq> 56"
  moreover have "n mod 64 < 64" by simp
  moreover have "Suc n mod 64 = (if n mod 64 = 63 then 0 else Suc (n mod 64))" by (simp add: mod_Suc)
  ultimately show ?thesis by (auto simp: pad_missing_def)
qed

text \<open>The \<^verbatim>\<open>while\<close> that pads with zero bytes up to 56 modulo 64.\<close>

function pad56 :: "u8 list \<Rightarrow> u8 list" where
  "pad56 message = (if length message mod 64 = 56 then message else pad56 (message @ [0x00]))"
  by pat_completeness auto
termination
proof (relation "measure (\<lambda>m. pad_missing (length m))")
  fix message :: "u8 list"
  assume "length message mod 64 \<noteq> 56"
  then show "(message @ [0], message) \<in> measure (\<lambda>m. pad_missing (length m))"
    by (simp add: pad_missing_Suc)
qed simp

declare pad56.simps [simp del]

definition sha1_pad :: "u8 list \<Rightarrow> u8 list" where
  "sha1_pad input =
     (let bitLength = (of_nat (length input) :: u64) * 8
      in pad56 (input @ [0x80]) @ map (\<lambda>shift. ucast (drop_bit shift bitLength AND 0xFF)) [56, 48, 40, 32, 24, 16, 8, 0])"

definition rol :: "u32 \<Rightarrow> nat \<Rightarrow> u32" where
  "rol v bits = push_bit bits v OR drop_bit (32 - bits) v"

definition sha1_word :: "u8 list \<Rightarrow> nat \<Rightarrow> u32" where
  "sha1_word message offset =
     push_bit 24 (ucast (message ! offset)) OR push_bit 16 (ucast (message ! (offset + 1))) OR
     push_bit 8 (ucast (message ! (offset + 2))) OR ucast (message ! (offset + 3))"

definition sha1_schedule :: "u8 list \<Rightarrow> nat \<Rightarrow> u32 list" where
  "sha1_schedule message chunk =
     fold (\<lambda>i w. w @ [rol (w ! (i - 3) XOR w ! (i - 8) XOR w ! (i - 14) XOR w ! (i - 16)) 1])
       [16 ..< 80] (map (\<lambda>i. sha1_word message (chunk + i * 4)) [0 ..< 16])"

type_synonym sha1_state = "u32 \<times> u32 \<times> u32 \<times> u32 \<times> u32"

definition sha1_round :: "u32 list \<Rightarrow> nat \<Rightarrow> sha1_state \<Rightarrow> sha1_state" where
  "sha1_round w i = (\<lambda>(a, b, c, d, e).
     let (f, k) = (if i < 20 then ((b AND c) OR (NOT b AND d), 0x5A827999)
                   else if i < 40 then (b XOR c XOR d, 0x6ED9EBA1)
                   else if i < 60 then ((b AND c) OR (b AND d) OR (c AND d), 0x8F1BBCDC)
                   else (b XOR c XOR d, 0xCA62C1D6));
         temp = rol a 5 + f + e + k + w ! i
     in (temp, a, rol b 30, c, d))"

definition sha1_chunk :: "u8 list \<Rightarrow> nat \<Rightarrow> sha1_state \<Rightarrow> sha1_state" where
  "sha1_chunk message chunk = (\<lambda>(h0, h1, h2, h3, h4).
     let w = sha1_schedule message chunk;
         (a, b, c, d, e) = fold (sha1_round w) [0 ..< 80] (h0, h1, h2, h3, h4)
     in (h0 + a, h1 + b, h2 + c, h3 + d, h4 + e))"

definition sha1_init :: sha1_state where
  "sha1_init = (0x67452301, 0xEFCDAB89, 0x98BADCFE, 0x10325476, 0xC3D2E1F0)"

definition word_bytes :: "u32 \<Rightarrow> u8 list" where
  "word_bytes v = [ucast (drop_bit 24 v AND 0xFF), ucast (drop_bit 16 v AND 0xFF),
     ucast (drop_bit 8 v AND 0xFF), ucast (v AND 0xFF)]"

definition Sha1Digest :: "u8 list \<Rightarrow> u8 list" where
  "Sha1Digest input =
     (let message = sha1_pad input;
          (h0, h1, h2, h3, h4) =
            fold (sha1_chunk message) (map (\<lambda>k. k * 64) [0 ..< length message div 64]) sha1_init
      in concat (map word_bytes [h0, h1, h2, h3, h4]))"

section \<open>Base64\<close>

definition kAlphabet :: string where
  "kAlphabet = ''ABCDEFGHIJKLMNOPQRSTUVWXYZabcdefghijklmnopqrstuvwxyz0123456789+/''"

definition sextet :: "u32 \<Rightarrow> nat \<Rightarrow> char" where
  "sextet v shift = kAlphabet ! unat (drop_bit shift v AND 0x3F)"

fun Base64Encode :: "u8 list \<Rightarrow> string" where
  "Base64Encode (x # y # z # bytes) =
     (let v = push_bit 16 (ucast x) OR push_bit 8 (ucast y) OR ucast z
      in [sextet v 18, sextet v 12, sextet v 6, sextet v 0] @ Base64Encode bytes)"
| "Base64Encode [x, y] =
     (let v = push_bit 16 (ucast x) OR push_bit 8 (ucast y)
      in [sextet v 18, sextet v 12, sextet v 6, CHR ''=''])"
| "Base64Encode [x] =
     (let v = push_bit 16 (ucast x)
      in [sextet v 18, sextet v 12, CHR ''='', CHR ''=''])"
| "Base64Encode [] = []"

definition BuildWebSocketAccept :: "string \<Rightarrow> string" where
  "BuildWebSocketAccept key =
     Base64Encode (Sha1Digest (bytes_of (key @ ''258EAFA5-E914-47DA-95CA-C5AB0DC85B11'')))"

section \<open>Frames\<close>

definition BuildWebSocketFrame :: "string \<Rightarrow> string" where
  "BuildWebSocketFrame payload =
     (let size = (of_nat (length payload) :: u64) in
      [CHR 0x81] @
      (if size \<le> 125 then [char_of_word size]
       else if size \<le> 0xFFFF then
         [char_of_word (126 :: u8), char_of_word (drop_bit 8 size AND 0xFF), char_of_word (size AND 0xFF)]
       else
         [char_of_word (127 :: u8)] @
         map (\<lambda>shift. char_of_word (drop_bit shift size AND 0xFF)) [56, 48, 40, 32, 24, 16, 8, 0]) @
      payload)"

section \<open>SHA-1 against FIPS 180\<close>

text \<open>
  The definition of the standard: padding to a multiple of 512 bits, the message schedule as a
  recursion, the functions Ch, Parity and Maj with exclusive or, rotations of the library, and the
  hash value as a recursion over the blocks. Bytes and words are related by their values.
\<close>

definition be_word :: "u8 list \<Rightarrow> u32" where
  "be_word bs = of_int (foldl (\<lambda>n b. 256 * n + uint b) 0 bs)"

definition be_bytes :: "nat \<Rightarrow> nat \<Rightarrow> u8 list" where
  "be_bytes k n = map (\<lambda>i. of_nat (n div 256 ^ i)) (rev [0 ..< k])"

definition fips_pad :: "u8 list \<Rightarrow> u8 list" where
  "fips_pad m = m @ [0x80] @ replicate ((119 - length m mod 64) mod 64) 0 @ be_bytes 8 (8 * length m)"

function fips_W :: "(nat \<Rightarrow> u32) \<Rightarrow> nat \<Rightarrow> u32" where
  "fips_W M t = (if t < 16 then M t
     else word_rotl 1 (fips_W M (t - 3) XOR fips_W M (t - 8) XOR fips_W M (t - 14) XOR fips_W M (t - 16)))"
  by pat_completeness auto
termination by (relation "measure snd") auto

declare fips_W.simps [simp del]

definition fips_f :: "nat \<Rightarrow> u32 \<Rightarrow> u32 \<Rightarrow> u32 \<Rightarrow> u32" where
  "fips_f t x y z =
     (if t < 20 then (x AND y) XOR (NOT x AND z)
      else if 40 \<le> t \<and> t < 60 then (x AND y) XOR (x AND z) XOR (y AND z)
      else x XOR y XOR z)"

definition fips_K :: "nat \<Rightarrow> u32" where
  "fips_K t = [0x5A827999, 0x6ED9EBA1, 0x8F1BBCDC, 0xCA62C1D6] ! (t div 20)"

primrec fips_rounds :: "(nat \<Rightarrow> u32) \<Rightarrow> nat \<Rightarrow> sha1_state \<Rightarrow> sha1_state" where
  "fips_rounds W 0 s = s"
| "fips_rounds W (Suc t) s =
     (case fips_rounds W t s of (a, b, c, d, e) \<Rightarrow>
        (word_rotl 5 a + fips_f t b c d + e + fips_K t + W t, a, word_rotl 30 b, c, d))"

definition fips_block :: "u8 list \<Rightarrow> nat \<Rightarrow> nat \<Rightarrow> u32" where
  "fips_block m i j = be_word (take 4 (drop (64 * i + 4 * j) m))"

primrec fips_H :: "u8 list \<Rightarrow> nat \<Rightarrow> sha1_state" where
  "fips_H m 0 = sha1_init"
| "fips_H m (Suc i) =
     (case (fips_H m i, fips_rounds (fips_W (fips_block m i)) 80 (fips_H m i)) of
        ((h0, h1, h2, h3, h4), (a, b, c, d, e)) \<Rightarrow> (h0 + a, h1 + b, h2 + c, h3 + d, h4 + e))"

definition fips_sha1 :: "u8 list \<Rightarrow> u8 list" where
  "fips_sha1 m =
     (case fips_H (fips_pad m) (length (fips_pad m) div 64) of
        (h0, h1, h2, h3, h4) \<Rightarrow> concat (map (\<lambda>h. be_bytes 4 (unat h)) [h0, h1, h2, h3, h4]))"

lemma mod_plus: "y < m \<Longrightarrow> x = m + y \<Longrightarrow> x mod m = (y :: nat)"
  by simp

lemma rol_rotl: "0 < n \<Longrightarrow> n < 32 \<Longrightarrow> rol v n = word_rotl n v"
  unfolding rol_def
proof (rule bit_word_eqI)
  fix k assume n: "0 < n" "n < 32" and "k < LENGTH(32)"
  then have k: "k < 32" by simp
  show "bit (push_bit n v OR drop_bit (32 - n) v) k \<longleftrightarrow> bit (word_rotl n v) k"
  proof (cases "k < n")
    case True
    then have "(k + (32 - n)) mod 32 = 32 - n + k" using k n by simp
    with True k n show ?thesis by (simp add: bit_simps bit_word_rotl_iff)
  next
    case False
    then have "(k + (32 - n)) mod 32 = k - n" using n k by (intro mod_plus) auto
    with False k n show ?thesis by (auto simp: bit_simps bit_word_rotl_iff dest: bit_imp_le_length)
  qed
qed

lemma pad56_replicate: "pad56 m = m @ replicate (pad_missing (length m)) 0"
proof (induction m rule: pad56.induct)
  case (1 m)
  show ?case
  proof (cases "length m mod 64 = 56")
    case True
    then show ?thesis by (subst pad56.simps) (simp add: pad_missing_def)
  next
    case False
    with 1 pad_missing_Suc [OF False] show ?thesis by (subst pad56.simps) (simp add: replicate_append_same)
  qed
qed

lemma pad_missing_fips: "pad_missing (Suc n) = (119 - n mod 64) mod 64"
proof -
  define r where "r = n mod 64"
  have r: "r < 64" by (simp add: r_def)
  have suc: "Suc n mod 64 = (if r = 63 then 0 else Suc r)" by (simp add: mod_Suc r_def)
  show ?thesis
  proof (cases "r \<le> 55")
    case True
    then have "(119 - r) mod 64 = 55 - r" by (intro mod_plus) auto
    with True suc show ?thesis by (simp add: pad_missing_def flip: r_def)
  next
    case False
    then have "(119 - r) mod 64 = 119 - r" by simp
    with False suc r show ?thesis by (simp add: pad_missing_def flip: r_def)
  qed
qed

lemma byte_of_nat:
  assumes "k + 8 \<le> 64"
  shows "(ucast (drop_bit k (of_nat n :: u64) AND 0xFF) :: u8) = of_nat (n div 2 ^ k)"
proof -
  have m: "(0xFF :: u64) = mask 8" by (simp add: mask_eq_exp_minus_1)
  show ?thesis unfolding m
    by (rule bit_word_eqI) (use assms in \<open>auto simp: bit_simps bit_nat_iff simp flip: drop_bit_eq_div\<close>)
qed

lemma sha1_pad_fips: "sha1_pad m = fips_pad m"
proof -
  define N where "N = 8 * length m"
  have N: "(of_nat (length m) :: u64) * 8 = of_nat N" by (simp add: N_def)
  have "map (\<lambda>shift. ucast (drop_bit shift (of_nat N :: u64) AND 0xFF)) [56, 48, 40, 32, 24, 16, 8, 0] = be_bytes 8 N"
    using byte_of_nat [of 0 N] byte_of_nat [of 8 N] byte_of_nat [of 16 N] byte_of_nat [of 24 N]
      byte_of_nat [of 32 N] byte_of_nat [of 40 N] byte_of_nat [of 48 N] byte_of_nat [of 56 N]
    by (simp add: be_bytes_def upt_rec)
  then show ?thesis
    by (simp only: sha1_pad_def Let_def fips_pad_def pad56_replicate N N_def [symmetric]) (simp add: pad_missing_fips)
qed

lemma length_fips_pad: "length (fips_pad m) mod 64 = 0"
proof -
  define q r where "q = length m div 64" and "r = length m mod 64"
  have len: "length m = 64 * q + r" and r: "r < 64" by (simp_all add: q_def r_def)
  have "length (fips_pad m) = 64 * (if r \<le> 55 then q + 1 else q + 2)"
  proof (cases "r \<le> 55")
    case True
    then have "(119 - r) mod 64 = 55 - r" by (intro mod_plus) auto
    with True show ?thesis by (simp add: fips_pad_def be_bytes_def len)
  next
    case False
    then have "(119 - r) mod 64 = 119 - r" by simp
    with False r show ?thesis by (simp add: fips_pad_def be_bytes_def len)
  qed
  then show ?thesis by simp
qed

lemma sha1_word_be:
  assumes "p + 4 \<le> length m"
  shows "sha1_word m p = be_word (take 4 (drop p m))"
proof -
  have four: "take 4 (drop p m) = [m ! p, m ! (p + 1), m ! (p + 2), m ! (p + 3)]"
    using assms by (intro nth_equalityI) (auto simp: less_Suc_eq numeral_eq_Suc)
  have byte: "\<not> bit (a :: u8) k" if "8 \<le> k" for a k
    using that by (auto dest: bit_imp_le_length)
  have "push_bit 24 (ucast a) OR push_bit 16 (ucast b) OR push_bit 8 (ucast c) OR ucast d =
      be_word [a, b, c, d]" for a b c d :: u8
  proof -
    let ?a = "push_bit 24 (ucast a) :: u32" and ?b = "push_bit 16 (ucast b) :: u32"
      and ?c = "push_bit 8 (ucast c) :: u32" and ?d = "ucast d :: u32"
    have "?c AND ?d = 0" "?b AND (?c OR ?d) = 0" "?a AND (?b OR ?c OR ?d) = 0"
      by (rule bit_word_eqI; force simp: bit_simps byte)+
    then have "?a OR ?b OR ?c OR ?d = ?a + (?b + (?c + ?d))"
      by (simp add: disjunctive_add_eq_or)
    also have "\<dots> = be_word [a, b, c, d]"
      by (simp add: be_word_def push_bit_eq_mult algebra_simps unsigned_ucast_eq)
    finally show ?thesis .
  qed
  then show ?thesis by (simp add: sha1_word_def four)
qed

lemma sha1_schedule_fips:
  assumes "chunk + 64 \<le> length m" "t < 80"
  shows "sha1_schedule m chunk ! t = fips_W (\<lambda>j. sha1_word m (chunk + j * 4)) t"
proof -
  let ?M = "\<lambda>j. sha1_word m (chunk + j * 4)"
  have main: "n \<ge> 16 \<Longrightarrow> fold (\<lambda>i w. w @ [rol (w ! (i - 3) XOR w ! (i - 8) XOR w ! (i - 14) XOR w ! (i - 16)) 1])
       [16 ..< n] (map ?M [0 ..< 16]) = map (fips_W ?M) [0 ..< n]" for n
  proof (induction n rule: nat_induct_at_least)
    case base
    have "map ?M [0 ..< 16] = map (fips_W ?M) [0 ..< 16]"
      by (rule map_cong [OF refl]) (subst fips_W.simps, simp)
    then show ?case by simp
  next
    case (Suc n)
    have "fips_W ?M n = word_rotl 1 (fips_W ?M (n - 3) XOR fips_W ?M (n - 8) XOR fips_W ?M (n - 14) XOR fips_W ?M (n - 16))"
      using Suc.hyps by (subst fips_W.simps) simp
    with Suc show ?case by (simp add: rol_rotl)
  qed
  have "sha1_schedule m chunk = map (fips_W ?M) [0 ..< 80]"
    unfolding sha1_schedule_def by (rule main) simp
  then show ?thesis using assms(2) by simp
qed

lemma sha1_round_fips:
  assumes "t < 80"
  shows "sha1_round w t (a, b, c, d, e) =
    (word_rotl 5 a + fips_f t b c d + e + fips_K t + w ! t, a, word_rotl 30 b, c, d)"
proof -
  have ch: "(b AND c) OR (NOT b AND d) = (b AND c) XOR (NOT b AND d)"
    by (rule bit_word_eqI) (auto simp: bit_simps)
  have maj: "(b AND c) OR (b AND d) OR (c AND d) = (b AND c) XOR (b AND d) XOR (c AND d)"
    by (rule bit_word_eqI) (auto simp: bit_simps)
  have K: "fips_K t = (if t < 20 then 0x5A827999 else if t < 40 then 0x6ED9EBA1
      else if t < 60 then 0x8F1BBCDC else 0xCA62C1D6)"
  proof -
    consider "t < 20" | "20 \<le> t" "t < 40" | "40 \<le> t" "t < 60" | "60 \<le> t" by linarith
    then show ?thesis
    proof cases
      case 2
      then have "t div 20 = 1" by (intro div_nat_eqI) auto
      with 2 show ?thesis by (simp add: fips_K_def)
    next
      case 3
      then have "t div 20 = 2" by (intro div_nat_eqI) auto
      with 3 show ?thesis by (simp add: fips_K_def)
    next
      case 4
      with assms have "t div 20 = 3" by (intro div_nat_eqI) auto
      with 4 show ?thesis by (simp add: fips_K_def)
    qed (simp add: fips_K_def)
  qed
  show ?thesis
    by (simp add: sha1_round_def Let_def ch maj K fips_f_def rol_rotl)
qed


lemma sha1_rounds_fips:
  assumes "n \<le> 80"
  shows "fold (sha1_round w) [0 ..< n] s = fips_rounds ((!) w) n s"
  using assms
proof (induction n)
  case (Suc n)
  obtain a b c d e where "fips_rounds ((!) w) n s = (a, b, c, d, e)" by (metis prod_cases5)
  with Suc show ?case by (simp add: sha1_round_fips)
qed simp

lemma fips_rounds_cong: "(\<And>t. t < n \<Longrightarrow> W t = W' t) \<Longrightarrow> fips_rounds W n s = fips_rounds W' n s"
  by (induction n) (auto split: prod.splits)

lemma fips_W_cong: "(\<And>j. j < 16 \<Longrightarrow> M j = M' j) \<Longrightarrow> fips_W M t = fips_W M' t"
proof (induction t rule: less_induct)
  case (less t)
  show ?case
  proof (cases "t < 16")
    case True
    with less.prems show ?thesis by (simp add: fips_W.simps [of M t] fips_W.simps [of M' t])
  next
    case False
    then have "fips_W M (t - k) = fips_W M' (t - k)" if "0 < k" for k
      using that less.prems by (intro less.IH) auto
    with False show ?thesis by (subst (1 2) fips_W.simps) simp
  qed
qed

lemma sha1_chunk_fips:
  assumes "64 * i + 64 \<le> length m"
  shows "sha1_chunk m (i * 64) (h0, h1, h2, h3, h4) =
    (case fips_rounds (fips_W (fips_block m i)) 80 (h0, h1, h2, h3, h4) of
       (a, b, c, d, e) \<Rightarrow> (h0 + a, h1 + b, h2 + c, h3 + d, h4 + e))"
proof -
  have "fips_W (\<lambda>j. sha1_word m (i * 64 + j * 4)) t = fips_W (fips_block m i) t" for t
    using assms by (intro fips_W_cong) (simp add: fips_block_def sha1_word_be algebra_simps)
  then have "fips_rounds ((!) (sha1_schedule m (i * 64))) 80 s = fips_rounds (fips_W (fips_block m i)) 80 s" for s
    using assms by (intro fips_rounds_cong) (simp add: sha1_schedule_fips)
  then show ?thesis by (simp add: sha1_chunk_def sha1_rounds_fips Let_def del: upt_rec_numeral)
qed

lemma sha1_chunks_fips:
  assumes "64 * n \<le> length m"
  shows "fold (sha1_chunk m) (map (\<lambda>k. k * 64) [0 ..< n]) sha1_init = fips_H m n"
  using assms
proof (induction n)
  case (Suc n)
  obtain a b c d e where h: "fips_H m n = (a, b, c, d, e)" by (metis prod_cases5)
  with Suc show ?case by (simp add: sha1_chunk_fips)
qed simp

lemma word_bytes_be: "word_bytes v = be_bytes 4 (unat v)"
proof -
  have m: "(0xFF :: u32) = mask 8" by (simp add: mask_eq_exp_minus_1)
  have "(ucast (drop_bit k v AND 0xFF) :: u8) = of_nat (unat v div 2 ^ k)" for k
    unfolding m by (rule bit_word_eqI) (auto simp: bit_simps bit_nat_iff simp flip: drop_bit_eq_div)
  from this [of 24] this [of 16] this [of 8] this [of 0] show ?thesis
    by (simp add: word_bytes_def be_bytes_def upt_rec)
qed

text \<open>
  C20: the hash of the handshake is SHA-1. For every input the byte loops, the shifts and the
  \<^verbatim>\<open>or\<close>-forms of the choice and majority functions compute the digest of FIPS 180,
  with its closed-form padding, recursive message schedule and rotations.
\<close>
theorem Sha1Digest_fips: "Sha1Digest m = fips_sha1 m"
proof -
  have "64 * (length (fips_pad m) div 64) \<le> length (fips_pad m)" by simp
  from sha1_chunks_fips [OF this] show ?thesis
    by (simp add: Sha1Digest_def fips_sha1_def Let_def sha1_pad_fips word_bytes_be split: prod.split)
qed

lemma length_Sha1Digest: "length (Sha1Digest m) = 20"
  by (simp add: Sha1Digest_def Let_def word_bytes_def split: prod.split)

section \<open>Base64 against its decoding\<close>

text \<open>The value of a character of the alphabet, and the decoder of RFC 4648 with padding.\<close>

definition b64_value :: "char \<Rightarrow> u32 option" where
  "b64_value c =
     (let n = length (takeWhile (\<lambda>x. x \<noteq> c) kAlphabet) in if n < 64 then Some (of_nat n) else None)"

definition b64_group :: "u32 \<Rightarrow> u32 \<Rightarrow> u32 \<Rightarrow> u32 \<Rightarrow> u8 list" where
  "b64_group a b c d =
     (let v = push_bit 18 a OR push_bit 12 b OR push_bit 6 c OR d
      in [ucast (drop_bit 16 v), ucast (drop_bit 8 v), ucast v])"

fun b64_decode :: "string \<Rightarrow> u8 list option" where
  "b64_decode [] = Some []"
| "b64_decode (a # b # c # d # rest) =
     (case (b64_value a, b64_value b) of
        (Some a', Some b') \<Rightarrow>
          if c = CHR ''='' \<and> d = CHR ''='' \<and> rest = [] then Some (take 1 (b64_group a' b' 0 0))
          else (case b64_value c of
                  None \<Rightarrow> None
                | Some c' \<Rightarrow>
                    if d = CHR ''='' \<and> rest = [] then Some (take 2 (b64_group a' b' c' 0))
                    else (case b64_value d of
                            None \<Rightarrow> None
                          | Some d' \<Rightarrow> map_option (\<lambda>bs. b64_group a' b' c' d' @ bs) (b64_decode rest)))
      | _ \<Rightarrow> None)"
| "b64_decode _ = None"

lemma b64_value_alphabet:
  assumes "n < 64"
  shows "b64_value (kAlphabet ! n) = Some (of_nat n) \<and> kAlphabet ! n \<noteq> CHR ''=''"
proof -
  have "list_all (\<lambda>n. b64_value (kAlphabet ! n) = Some (of_nat n) \<and> kAlphabet ! n \<noteq> CHR ''='') [0 ..< 64]"
    by (simp add: upt_rec kAlphabet_def b64_value_def)
  then show ?thesis using assms by (simp add: list_all_iff)
qed

lemma sextet_value:
  "b64_value (sextet v k) = Some (drop_bit k v AND 0x3F)" "sextet v k \<noteq> CHR ''=''"
proof -
  have "drop_bit k v AND 0x3F \<le> 0x3F" by (rule word_and_le1)
  then have "unat (drop_bit k v AND 0x3F) < 64" by (simp add: word_le_nat_alt)
  from b64_value_alphabet [OF this]
  show "b64_value (sextet v k) = Some (drop_bit k v AND 0x3F)" "sextet v k \<noteq> CHR ''=''"
    by (simp_all add: sextet_def)
qed

lemma b64_group_sextets:
  fixes x y z :: u8
  defines "v \<equiv> (push_bit 16 (ucast x) OR push_bit 8 (ucast y) OR ucast z) :: u32"
  shows "b64_group (drop_bit 18 v AND 0x3F) (drop_bit 12 v AND 0x3F) (drop_bit 6 v AND 0x3F) (drop_bit 0 v AND 0x3F) =
    [x, y, z]"
proof -
  have m: "(0x3F :: u32) = mask 6" by (simp add: mask_eq_exp_minus_1)
  have byte: "\<not> bit (a :: u8) k" if "8 \<le> k" for a k
    using that by (auto dest: bit_imp_le_length)
  have v: "\<not> bit v k" if "24 \<le> k" for k using that by (auto simp: v_def bit_simps byte)
  have "push_bit 18 (drop_bit 18 v AND mask 6) OR push_bit 12 (drop_bit 12 v AND mask 6) OR
      push_bit 6 (drop_bit 6 v AND mask 6) OR (drop_bit 0 v AND mask 6) = v"
  proof (rule bit_word_eqI)
    fix n assume "n < LENGTH(32)"
    show "bit (push_bit 18 (drop_bit 18 v AND mask 6) OR push_bit 12 (drop_bit 12 v AND mask 6) OR
      push_bit 6 (drop_bit 6 v AND mask 6) OR (drop_bit 0 v AND mask 6)) n \<longleftrightarrow> bit v n"
    proof (cases "bit v n")
      case True
      with v have "n < 24" by (meson not_less)
      then consider "n < 6" | "6 \<le> n" "n < 12" | "12 \<le> n" "n < 18" | "18 \<le> n" "n < 24" by linarith
      then show ?thesis using True by cases (auto simp: bit_simps)
    next
      case False
      then show ?thesis by (auto simp: bit_simps)
    qed
  qed
  moreover have "ucast (drop_bit 16 v) = x" "ucast (drop_bit 8 v) = y" "ucast v = z"
    by (rule bit_word_eqI; auto simp: v_def bit_simps byte)+
  ultimately show ?thesis unfolding m by (simp add: b64_group_def Let_def)
qed

lemma b64_group_two:
  fixes x y :: u8
  assumes "v = push_bit 16 (ucast x) OR push_bit 8 (ucast y)"
  shows "take 2 (b64_group (drop_bit 18 v AND 0x3F) (drop_bit 12 v AND 0x3F) (drop_bit 6 v AND 0x3F) 0) = [x, y]"
proof -
  have m: "(0x3F :: u32) = mask 6" by (simp add: mask_eq_exp_minus_1)
  have "drop_bit 0 v AND 0x3F = 0"
    unfolding m assms by (rule bit_word_eqI) (auto simp: bit_simps)
  then show ?thesis using b64_group_sextets [of x y 0] assms by simp
qed

lemma b64_group_one:
  fixes x :: u8
  assumes "v = push_bit 16 (ucast x)"
  shows "take 1 (b64_group (drop_bit 18 v AND 0x3F) (drop_bit 12 v AND 0x3F) 0 0) = [x]"
proof -
  have m: "(0x3F :: u32) = mask 6" by (simp add: mask_eq_exp_minus_1)
  have "drop_bit 0 v AND 0x3F = 0" "drop_bit 6 v AND 0x3F = 0"
    unfolding m assms by (rule bit_word_eqI; auto simp: bit_simps)+
  then show ?thesis using b64_group_sextets [of x 0 0] assms by simp
qed

lemma b64_decode_group:
  "b64_decode (sextet v 18 # sextet v 12 # sextet v 6 # sextet v 0 # rest) =
   map_option (\<lambda>bs. b64_group (drop_bit 18 v AND 0x3F) (drop_bit 12 v AND 0x3F) (drop_bit 6 v AND 0x3F)
     (drop_bit 0 v AND 0x3F) @ bs) (b64_decode rest)"
  by (simp only: b64_decode.simps sextet_value prod.case option.case simp_thms if_False)

lemma b64_decode_two:
  "b64_decode [sextet v 18, sextet v 12, sextet v 6, CHR ''=''] =
   Some (take 2 (b64_group (drop_bit 18 v AND 0x3F) (drop_bit 12 v AND 0x3F) (drop_bit 6 v AND 0x3F) 0))"
  by (simp only: b64_decode.simps sextet_value prod.case option.case simp_thms if_False if_True)

lemma b64_decode_one:
  "b64_decode [sextet v 18, sextet v 12, CHR ''='', CHR ''=''] =
   Some (take 1 (b64_group (drop_bit 18 v AND 0x3F) (drop_bit 12 v AND 0x3F) 0 0))"
  by (simp only: b64_decode.simps sextet_value prod.case option.case simp_thms if_True)

lemma length_Base64Encode: "length (Base64Encode bs) = 4 * ((length bs + 2) div 3)"
proof (induction bs rule: Base64Encode.induct)
  case (1 x y z bytes)
  have "(length (x # y # z # bytes) + 2) div 3 = Suc ((length bytes + 2) div 3)" by simp
  with 1 show ?case by (simp only: Base64Encode.simps Let_def) simp
qed (simp_all add: Let_def)

lemma b64_decode_encode: "b64_decode (Base64Encode bs) = Some bs"
proof (induction bs rule: Base64Encode.induct)
  case (1 x y z bytes)
  then show ?case
    by (simp only: Base64Encode.simps Let_def append.simps b64_decode_group b64_group_sextets option.map)
next
  case (2 x y)
  then show ?case by (simp only: Base64Encode.simps Let_def b64_decode_two b64_group_two [OF refl])
next
  case (3 x)
  then show ?case by (simp only: Base64Encode.simps Let_def b64_decode_one b64_group_one [OF refl])
qed simp

text \<open>
  Base64 encoding loses nothing. Decoding the encoding of any bytes, with any of the three
  paddings, gives the bytes back, and the encoding of \<open>n\<close> bytes is four times the number of
  started groups of three long.
\<close>
lemma Base64Encode_decode:
  "b64_decode (Base64Encode bs) = Some bs \<and> length (Base64Encode bs) = 4 * ((length bs + 2) div 3)"
  using b64_decode_encode length_Base64Encode by blast

section \<open>Reading frames\<close>

text \<open>The client's reading of one unmasked, final text frame (RFC 6455, section 5.2).\<close>

definition be_value :: "string \<Rightarrow> nat" where
  "be_value s = foldl (\<lambda>n c. 256 * n + of_char c) 0 s"

definition read_frame :: "string \<Rightarrow> (string \<times> string) option" where
  "read_frame s =
     (case s of
        op # len # r \<Rightarrow>
          if op \<noteq> CHR 0x81 \<or> 127 < (of_char len :: nat) then None
          else
            (let k = (if (of_char len :: nat) = 126 then 2 else if (of_char len :: nat) = 127 then 8 else 0);
                 n = (if k = 0 then of_char len else be_value (take k r))
             in if length r < k + n then None else Some (take n (drop k r), drop (k + n) r))
      | _ \<Rightarrow> None)"


lemma of_char_char_of_int: "(of_char (char_of (k :: int)) :: nat) = nat (k mod 256)"
proof -
  have "int (of_char (char_of k)) = k mod 256" by (simp add: of_nat_of_char)
  then show ?thesis by simp
qed

lemma of_char_char_of_word: "(of_char (char_of_word (w :: u64)) :: nat) = unat w mod 256"
proof -
  have "int (of_char (char_of_word w)) = uint w mod 256"
    by (simp add: char_of_word_def of_nat_of_char)
  also have "\<dots> = int (unat w mod 256)" by (simp add: zmod_int)
  finally show ?thesis by (simp only: of_nat_eq_iff)
qed

lemma size_byte:
  "(of_char (char_of_word (drop_bit k (of_nat n :: u64) AND 0xFF)) :: nat) = (n mod 2 ^ 64) div 2 ^ k mod 256"
proof -
  have "drop_bit k (of_nat n :: u64) AND 0xFF = take_bit 8 (drop_bit k (of_nat n))"
    by (simp add: take_bit_eq_mask mask_eq_exp_minus_1)
  moreover have "unat (take_bit 8 (drop_bit k (of_nat n :: u64))) = (n mod 2 ^ 64) div 2 ^ k mod 256"
    unfolding unsigned_take_bit_eq unsigned_drop_bit_eq unsigned_of_nat
    by (simp add: drop_bit_eq_div take_bit_eq_mod)
  ultimately show ?thesis by (simp add: of_char_char_of_word)
qed

lemma be_value_snoc: "be_value (s @ [c]) = 256 * be_value s + of_char c"
  by (simp add: be_value_def)

lemma be_value_bytes:
  assumes "\<And>i. i < k \<Longrightarrow> of_char (s ! i) = n div 256 ^ (k - 1 - i) mod 256" "length s = k" "n < 256 ^ k"
  shows "be_value s = n"
  using assms
proof (induction k arbitrary: s n)
  case 0
  then show ?case by (simp add: be_value_def)
next
  case (Suc k)
  then obtain t c where s: "s = t @ [c]" "length t = k" by (metis length_Suc_conv_rev)
  have "be_value t = n div 256"
  proof (rule Suc.IH)
    fix i assume i: "i < k"
    then have "of_char (t ! i) = n div 256 ^ (k - i) mod 256"
      using Suc.prems(1) [of i] s by (simp add: nth_append)
    also have "(256 :: nat) ^ (k - i) = 256 * 256 ^ (k - 1 - i)" using i by (simp flip: power_Suc)
    finally show "of_char (t ! i) = n div 256 div 256 ^ (k - 1 - i) mod 256" by (simp add: div_mult2_eq)
  qed (use s Suc.prems(3) in \<open>auto simp: less_mult_imp_div_less mult.commute\<close>)
  moreover have "of_char c = n mod 256" using Suc.prems(1) [of k] s by (simp add: nth_append)
  ultimately show ?case by (simp add: s be_value_snoc)
qed

lemma BuildWebSocketFrame_parse:
  assumes "length payload < 2 ^ 64"
  shows "read_frame (BuildWebSocketFrame payload @ rest) = Some (payload, rest)"
proof -
  let ?n = "length payload"
  let ?size = "of_nat ?n :: u64"
  have le: "?size \<le> of_nat b \<longleftrightarrow> ?n \<le> b" if "b < 2 ^ 64" for b
    using assms that by (simp add: word_of_nat_less_eq_iff take_bit_nat_eq_self)
  consider "?n \<le> 125" | "125 < ?n" "?n \<le> 0xFFFF" | "0xFFFF < ?n" by linarith
  then show ?thesis
  proof cases
    case 1
    then have "?size \<le> 125" using le [of 125] by simp
    moreover have "(of_char (char_of_word ?size) :: nat) = ?n"
      using 1 by (simp add: of_char_char_of_word unat_of_nat)
    ultimately show ?thesis using 1 by (simp add: BuildWebSocketFrame_def read_frame_def Let_def)
  next
    case 2
    let ?h = "char_of_word (drop_bit 8 ?size AND 0xFF)" and ?l = "char_of_word (?size AND 0xFF)"
    have "\<not> ?size \<le> 125" "?size \<le> 0xFFFF" using 2 le [of 125] le [of "0xFFFF"] by simp_all
    moreover have "be_value [?h, ?l] = ?n"
      using 2 size_byte [of 8 ?n] size_byte [of 0 ?n] by (simp add: be_value_def)
    moreover have "(of_char (char_of_word (126 :: u8)) :: nat) = 126" by (simp add: char_of_word_def of_char_char_of_int)
    ultimately show ?thesis by (simp add: BuildWebSocketFrame_def read_frame_def Let_def)
  next
    case 3
    let ?bs = "map (\<lambda>shift. char_of_word (drop_bit shift ?size AND 0xFF)) [56, 48, 40, 32, 24, 16, 8, 0]"
    have "\<not> ?size \<le> 125" "\<not> ?size \<le> 0xFFFF" using 3 le [of 125] le [of "0xFFFF"] by simp_all
    moreover have "be_value ?bs = ?n"
    proof (rule be_value_bytes [where k = 8])
      fix i :: nat assume "i < 8"
      then have "?bs ! i = char_of_word (drop_bit (8 * (7 - i)) ?size AND 0xFF)"
        by (auto simp: less_Suc_eq numeral_eq_Suc)
      moreover have "(2 :: nat) ^ (8 * (7 - i)) = 256 ^ (8 - 1 - i)" by (simp add: power_mult)
      ultimately show "of_char (?bs ! i) = ?n div 256 ^ (8 - 1 - i) mod 256"
        using size_byte [of "8 * (7 - i)" ?n] assms by simp
    qed (use assms in simp_all)
    moreover have "(of_char (char_of_word (127 :: u8)) :: nat) = 127" by (simp add: char_of_word_def of_char_char_of_int)
    ultimately show ?thesis by (simp add: BuildWebSocketFrame_def read_frame_def Let_def drop_Cons')
  qed
qed

text \<open>
  C35: a frame is read back as its payload. For every payload whose length fits 64 bits, in all
  three length encodings, a client that reads the sent bytes gets exactly the payload and the
  bytes that follow it.
\<close>
theorem BuildWebSocketFrame_read:
  assumes "length payload < 2 ^ 64"
  shows "read_frame (BuildWebSocketFrame payload @ rest) = Some (payload, rest)"
  using assms by (rule BuildWebSocketFrame_parse)

theorem BuildWebSocketFrame_read_witness:
  "read_frame (BuildWebSocketFrame (replicate 300 (CHR ''x'')) @ ''y'') = Some (replicate 300 (CHR ''x''), ''y'')"
  by (rule BuildWebSocketFrame_read) simp

end
