(* ===== verification/Http_Server.thy ===== *)
theory Http_Server
  imports Http_Message WebSocket_Codec Ingest_Service
begin

text \<open>
  \<^verbatim>\<open>src/api/http_server.cpp\<close>, the server: sending and closing on descriptors, the lists of
  WebSocket subscribers, the broadcast of ingest events, the routes, the handling of one client,
  and the accept loop with \<^verbatim>\<open>Stop\<close> as a step relation. The repository reference of the server
  is that of its ingest service, as in \<^verbatim>\<open>main.cpp\<close>.
\<close>

section \<open>Descriptors\<close>

text \<open>
  What \<^verbatim>\<open>send\<close> answers: a number of bytes taken, a failure with \<^verbatim>\<open>EINTR\<close>, or another
  failure. The answers of the kernel to the successive calls of a handler are a list; its end
  stands for failure, so a send is interrupted finitely often.
\<close>

datatype send_answer = Sent nat | Interrupted | SendFailed

text \<open>
  The open descriptors of the server, the bytes that the kernel has taken for each, and the number
  of \<^verbatim>\<open>close\<close> calls on a descriptor that was not open.
\<close>

record os_state =
  openFds :: "int set"
  delivered :: "int \<Rightarrow> string"
  sendAnswers :: "send_answer list"
  strayCloses :: nat

text \<open>The loop of \<^verbatim>\<open>SendAll\<close>: whether it sent everything, the final offset, the answers left.\<close>

fun send_loop :: "send_answer list \<Rightarrow> string \<Rightarrow> nat \<Rightarrow> bool \<times> nat \<times> send_answer list" where
  "send_loop [] payload offset = (\<not> offset < length payload, offset, [])"
| "send_loop (a # answers) payload offset =
     (if \<not> offset < length payload then (True, offset, a # answers)
      else case a of
             Interrupted \<Rightarrow> send_loop answers payload offset
           | SendFailed \<Rightarrow> (False, offset, answers)
           | Sent n \<Rightarrow>
               (let sent = min n (length payload - offset)
                in if sent = 0 then (False, offset, answers)
                   else send_loop answers payload (offset + sent)))"

definition SendAll :: "int \<Rightarrow> string \<Rightarrow> os_state \<Rightarrow> bool \<times> os_state" where
  "SendAll fd payload os =
     (case send_loop (sendAnswers os) payload 0 of
        (complete, offset, answers) \<Rightarrow>
          (complete, os\<lparr> delivered := (delivered os)(fd := delivered os fd @ take offset payload),
                       sendAnswers := answers \<rparr>))"

definition close_fd :: "int \<Rightarrow> os_state \<Rightarrow> os_state" where
  "close_fd fd os = os\<lparr> openFds := openFds os - {fd},
     strayCloses := (if fd \<in> openFds os then strayCloses os else Suc (strayCloses os)) \<rparr>"

section \<open>The server\<close>

record ('r, 'c) http_server =
  running :: bool
  listenFd :: int
  telemetryWsClients :: "int list"
  alertWsClients :: "int list"
  osState :: os_state
  gatewayState :: "('r, 'c) gateway"

definition new_server :: "('r, 'c) gateway \<Rightarrow> ('r, 'c) http_server" where
  "new_server g = \<lparr> running = False, listenFd = -1, telemetryWsClients = [], alertWsClients = [],
     osState = \<lparr> openFds = {}, delivered = \<lambda>_. [], sendAnswers = [], strayCloses = 0 \<rparr>,
     gatewayState = g \<rparr>"

section \<open>Broadcasts\<close>

text \<open>The loop of \<^verbatim>\<open>BroadcastMessage\<close>: the clients that stay, and the state.\<close>

fun broadcast_loop :: "string \<Rightarrow> int list \<Rightarrow> os_state \<Rightarrow> int list \<times> os_state" where
  "broadcast_loop frame [] os = ([], os)"
| "broadcast_loop frame (fd # fds) os =
     (let (sent, os) = SendAll fd frame os
      in if sent then (let (active, os) = broadcast_loop frame fds os in (fd # active, os))
         else broadcast_loop frame fds (close_fd fd os))"

definition BroadcastMessage :: "string \<Rightarrow> int list \<Rightarrow> os_state \<Rightarrow> int list \<times> os_state" where
  "BroadcastMessage payload clients os = broadcast_loop (BuildWebSocketFrame payload) clients os"

definition ingested_event :: "telemetry_packet \<Rightarrow> ingest_result \<Rightarrow> string" where
  "ingested_event p r =
     ''{\"type\":\"telemetry.ingested\",\"deviceId\":\"'' @ JsonEscape (deviceId p) @
     ''\",\"recordId\":'' @ u64_to_string (resultRecordId r) @
     '',\"timestamp\":'' @ u64_to_string (timestamp p) @
     '',\"transport\":\"'' @ JsonEscape (transport p) @
     ''\",\"txHash\":\"'' @ JsonEscape (case resultReceipt r of Some rc \<Rightarrow> txHash rc | None \<Rightarrow> []) @ ''\"}''"

definition rejected_event :: "telemetry_packet \<Rightarrow> ingest_result \<Rightarrow> string" where
  "rejected_event p r =
     ''{\"type\":\"ingest.rejected\",\"deviceId\":\"'' @ JsonEscape (deviceId p) @
     ''\",\"message\":\"'' @ JsonEscape (message r) @ ''\"}''"

definition BroadcastIngestEvent :: "telemetry_packet \<Rightarrow> ingest_result \<Rightarrow> ('r, 'c) http_server \<Rightarrow> ('r, 'c) http_server" where
  "BroadcastIngestEvent p r srv =
     (if accepted r then
        (let (active, os) = BroadcastMessage (ingested_event p r) (telemetryWsClients srv) (osState srv)
         in srv\<lparr> telemetryWsClients := active, osState := os \<rparr>)
      else
        (let (active, os) = BroadcastMessage (rejected_event p r) (alertWsClients srv) (osState srv)
         in srv\<lparr> alertWsClients := active, osState := os \<rparr>))"

section \<open>Routes\<close>

definition ingest_body :: "ingest_result \<Rightarrow> string" where
  "ingest_body r =
     ''{\"accepted\":'' @ BoolAsJson (accepted r) @
     '',\"message\":\"'' @ JsonEscape (message r) @
     ''\",\"recordId\":'' @ u64_to_string (resultRecordId r) @
     '',\"processingMs\":'' @ u64_to_string (processingMs r) @
     '',\"receipt\":'' @ ReceiptToJson (resultReceipt r) @ ''}''"

definition metrics_body :: "metrics_snapshot \<Rightarrow> string" where
  "metrics_body m =
     ''{\"totalRequests\":'' @ u64_to_string (snapTotalRequests m) @
     '',\"acceptedRequests\":'' @ u64_to_string (snapAcceptedRequests m) @
     '',\"rejectedRequests\":'' @ u64_to_string (snapRejectedRequests m) @
     '',\"averageProcessingMs\":'' @ u64_to_string (snapAverageProcessingMs m) @
     '',\"repositorySize\":'' @ u64_to_string (snapRepositorySize m) @ ''}''"

fun comma_list :: "string list \<Rightarrow> string" where
  "comma_list [] = []"
| "comma_list [x] = x"
| "comma_list (x # y # xs) = x @ '','' @ comma_list (y # xs)"

definition trace_body :: "string \<Rightarrow> telemetry_record list \<Rightarrow> string" where
  "trace_body param found =
     ''{\"batchCode\":\"'' @ JsonEscape param @ ''\",\"count\":'' @ size_to_string (length found) @
     '',\"records\":['' @ comma_list (map RecordToJson found) @ '']}''"

definition error_body :: "string \<Rightarrow> string" where
  "error_body what = ''{\"error\":\"'' @ what @ ''\"}''"

definition ingest_route :: "('r, 'c) ingest_service \<Rightarrow> u64 \<Rightarrow> string \<Rightarrow> ('r, 'c) http_server
    \<Rightarrow> (exn + http_response) \<times> ('r, 'c) http_server" where
  "ingest_route svc ms body srv =
     (let parsed = ParseTelemetryPacketJson body
      in if \<not> ok parsed then (Inr (json_response 400 (error_body (JsonEscape (parseError parsed)))), srv)
         else
           (case Ingest svc ms (parsedPacket parsed) (gatewayState srv) of
              (Inl e, g) \<Rightarrow> (Inl e, srv\<lparr> gatewayState := g \<rparr>)
            | (Inr result, g) \<Rightarrow>
                (Inr (json_response (if accepted result then 202 else 400) (ingest_body result)),
                 BroadcastIngestEvent (parsedPacket parsed) result (srv\<lparr> gatewayState := g \<rparr>))))"

definition record_response :: "string \<Rightarrow> exn + telemetry_record option \<Rightarrow> exn + http_response" where
  "record_response missing answer =
     (case answer of
        Inl e \<Rightarrow> Inl e
      | Inr None \<Rightarrow> Inr (json_response 404 (error_body missing))
      | Inr (Some r) \<Rightarrow> Inr (json_response 200 (RecordToJson r)))"

text \<open>The routes that only read: what they answer in a state of the gateway.\<close>

definition read_route :: "('r, 'c) ingest_service \<Rightarrow> string \<Rightarrow> string \<Rightarrow> ('r, 'c) gateway \<Rightarrow> exn + http_response" where
  "read_route svc meth path g =
     (let repo = repository svc; s = repositoryState g;
          get = (\<lambda>pre suf. if meth = ''GET'' then ExtractPathParam path pre suf else None)
      in if meth = ''GET'' \<and> path = ''/api/v1/metrics/overview'' then
           (case GetMetricsSnapshot svc g of
              Inl e \<Rightarrow> Inl e | Inr m \<Rightarrow> Inr (json_response 200 (metrics_body m)))
         else case get ''/api/v1/devices/'' ''/latest'' of
           Some param \<Rightarrow> record_response ''device not found'' (LatestByDevice repo param s)
         | None \<Rightarrow> (case get ''/api/v1/batches/'' ''/trace'' of
           Some param \<Rightarrow>
             (case FindByBatch repo param s of
                Inl e \<Rightarrow> Inl e | Inr found \<Rightarrow> Inr (json_response 200 (trace_body param found)))
         | None \<Rightarrow> (case get ''/api/v1/transactions/'' [] of
           Some param \<Rightarrow> record_response ''transaction not found'' (FindByTransaction repo param s)
         | None \<Rightarrow> Inr (json_response 404 (error_body ''route not found'')))))"

definition Route :: "('r, 'c) ingest_service \<Rightarrow> u64 \<Rightarrow> http_request \<Rightarrow> ('r, 'c) http_server
    \<Rightarrow> (exn + http_response) \<times> ('r, 'c) http_server" where
  "Route svc ms request srv =
     (let path = StripQuery (httpPath request)
      in if httpMethod request = ''GET'' \<and> path = ''/health'' then
           (Inr (json_response 200 ''{\"status\":\"ok\"}''), srv)
         else if httpMethod request = ''POST'' \<and> path = ''/api/v1/ingest'' then
           ingest_route svc ms (httpBody request) srv
         else (read_route svc (httpMethod request) path (gatewayState srv), srv))"

section \<open>One client\<close>

definition switching_protocols :: "string \<Rightarrow> string" where
  "switching_protocols key =
     ''HTTP/1.1 101 Switching Protocols'' @ crlf @ ''Upgrade: websocket'' @ crlf @
     ''Connection: Upgrade'' @ crlf @ ''Sec-WebSocket-Accept: '' @ BuildWebSocketAccept key @ crlf @ crlf"

definition send_response :: "int \<Rightarrow> http_response \<Rightarrow> ('r, 'c) http_server \<Rightarrow> ('r, 'c) http_server" where
  "send_response fd response srv = srv\<lparr> osState := snd (SendAll fd (BuildRawResponse response) (osState srv)) \<rparr>"

definition TryUpgradeWebSocket :: "int \<Rightarrow> http_request \<Rightarrow> string \<Rightarrow> ('r, 'c) http_server
    \<Rightarrow> bool \<times> ('r, 'c) http_server" where
  "TryUpgradeWebSocket clientFd request path srv =
     (if httpMethod request \<noteq> ''GET'' then (False, srv)
      else
        (let upgrade = ToLower (GetHeaderValue (httpHeaders request) ''Upgrade'');
             connection = ToLower (GetHeaderValue (httpHeaders request) ''Connection'');
             key = Trim (GetHeaderValue (httpHeaders request) ''Sec-WebSocket-Key'')
         in if upgrade \<noteq> ''websocket'' \<or> str_find ''upgrade'' connection = None \<or> key = [] then
              (False, send_response clientFd (json_response 400 (error_body ''invalid websocket upgrade'')) srv)
            else
              (let (sent, os) = SendAll clientFd (switching_protocols key) (osState srv);
                   srv = srv\<lparr> osState := os \<rparr>
               in if \<not> sent then (False, srv)
                  else if path = ''/ws/telemetry'' then
                    (True, srv\<lparr> telemetryWsClients := telemetryWsClients srv @ [clientFd] \<rparr>)
                  else (True, srv\<lparr> alertWsClients := alertWsClients srv @ [clientFd] \<rparr>))))"

definition is_ws_path :: "string \<Rightarrow> bool" where
  "is_ws_path path \<longleftrightarrow> path = ''/ws/telemetry'' \<or> path = ''/ws/alerts''"

text \<open>\<open>blocks\<close> is what \<^verbatim>\<open>recv\<close> gives on the client's descriptor; \<open>True\<close> keeps it open.\<close>

definition HandleClient :: "('r, 'c) ingest_service \<Rightarrow> u64 \<Rightarrow> string list \<Rightarrow> int \<Rightarrow> ('r, 'c) http_server
    \<Rightarrow> (exn + bool) \<times> ('r, 'c) http_server" where
  "HandleClient svc ms blocks clientFd srv =
     (let rawRequest = ReadHttpRequest blocks
      in if rawRequest = [] then (Inr False, srv)
         else case ParseHttpRequest rawRequest of
           None \<Rightarrow> (Inr False, send_response clientFd (json_response 400 (error_body ''invalid HTTP request'')) srv)
         | Some request \<Rightarrow>
             (let path = StripQuery (httpPath request)
              in if is_ws_path path then
                   (let (keep, srv) = TryUpgradeWebSocket clientFd request path srv in (Inr keep, srv))
                 else
                   (case Route svc ms request srv of
                      (Inl e, srv) \<Rightarrow> (Inl e, srv)
                    | (Inr response, srv) \<Rightarrow> (Inr False, send_response clientFd response srv))))"

section \<open>Start and Stop\<close>

text \<open>What the kernel answers to \<^verbatim>\<open>socket\<close>, \<^verbatim>\<open>bind\<close> and \<^verbatim>\<open>listen\<close>.\<close>

record listen_answers =
  socketAnswer :: int
  bindAnswer :: int
  listenAnswer :: int

definition open_fd :: "int \<Rightarrow> send_answer list \<Rightarrow> os_state \<Rightarrow> os_state" where
  "open_fd fd answers os = os\<lparr> openFds := insert fd (openFds os), delivered := (delivered os)(fd := []),
     sendAnswers := answers \<rparr>"

text \<open>\<^verbatim>\<open>Stop\<close> before it takes the mutex of the subscribers, and the whole.\<close>

definition stop_listening :: "('r, 'c) http_server \<Rightarrow> ('r, 'c) http_server" where
  "stop_listening srv =
     (let srv = srv\<lparr> running := False \<rparr>
      in if listenFd srv \<ge> 0
         then srv\<lparr> osState := close_fd (listenFd srv) (osState srv), listenFd := -1 \<rparr> else srv)"

definition Stop :: "('r, 'c) http_server \<Rightarrow> ('r, 'c) http_server" where
  "Stop srv =
     (let srv = stop_listening srv
      in srv\<lparr> osState := fold close_fd (alertWsClients srv) (fold close_fd (telemetryWsClients srv) (osState srv)),
            telemetryWsClients := [], alertWsClients := [] \<rparr>)"

text \<open>
  \<^verbatim>\<open>Start\<close> up to its loop. The handler is installed before \<^verbatim>\<open>Start\<close> is called, so a signal can come
  between its calls: \<open>signal\<close> is the call before which \<^verbatim>\<open>Stop\<close> runs, if one comes. On the descriptor
  \<^verbatim>\<open>-1\<close> that it leaves \<^verbatim>\<open>bind\<close> and \<^verbatim>\<open>listen\<close> fail.
\<close>

datatype start_point = BeforeSocket | BeforeBind | BeforeListen | BeforeLoop

definition start_listening :: "start_point option \<Rightarrow> listen_answers \<Rightarrow> ('r, 'c) http_server
    \<Rightarrow> (exn + unit) \<times> ('r, 'c) http_server" where
  "start_listening signal k srv =
     (let at = (\<lambda>point srv. if signal = Some point then Stop srv else srv);
          srv = (at BeforeSocket srv)\<lparr> listenFd := socketAnswer k \<rparr>
      in if socketAnswer k < 0 then (Inl (StdException ''failed to create socket''), srv)
         else
           (let srv = at BeforeBind (srv\<lparr> osState := open_fd (socketAnswer k) [] (osState srv) \<rparr>)
            in if listenFd srv < 0 \<or> bindAnswer k < 0 then (Inl (StdException ''failed to bind socket''), srv)
               else
                 (let srv = at BeforeListen srv
                  in if listenFd srv < 0 \<or> listenAnswer k < 0 then (Inl (StdException ''failed to listen''), srv)
                     else (Inr (), (at BeforeLoop srv)\<lparr> running := True \<rparr>))))"

text \<open>
  Where \<^verbatim>\<open>Start\<close> is: in \<^verbatim>\<open>accept\<close>, returned, left by an exception of a handler, or
  stopped for good under a signal handler that waits for the mutex its own thread holds.
\<close>

datatype phase = Accepting | Returned | Thrown exn | Locked

text \<open>
  The signal handler can run \<^verbatim>\<open>Stop\<close> while a request is being read: the handler has not looked at
  the server yet, and goes on with what \<^verbatim>\<open>Stop\<close> left.
\<close>

definition while_reading :: "bool \<Rightarrow> ('r, 'c) http_server \<Rightarrow> ('r, 'c) http_server" where
  "while_reading signal srv = (if signal then Stop srv else srv)"

text \<open>
  The signal handler can also run during a broadcast, which holds the mutex: \<open>n\<close> subscribers have been
  dealt with, the next one, if any, has got what the first \<open>m\<close> answers of the kernel let through, and
  \<^verbatim>\<open>Stop\<close> gets no further than its lock.
\<close>

definition broadcast_until :: "nat \<Rightarrow> nat \<Rightarrow> string \<Rightarrow> int list \<Rightarrow> os_state \<Rightarrow> os_state" where
  "broadcast_until n m payload clients os =
     (let os = snd (BroadcastMessage payload (take n clients) os)
      in case drop n clients of
           [] \<Rightarrow> os
         | fd # _ \<Rightarrow> snd (SendAll fd (BuildWebSocketFrame payload) (os\<lparr> sendAnswers := take m (sendAnswers os) \<rparr>)))"

definition cut_broadcast :: "nat \<Rightarrow> nat \<Rightarrow> telemetry_packet \<Rightarrow> ingest_result \<Rightarrow> ('r, 'c) http_server \<Rightarrow> ('r, 'c) http_server" where
  "cut_broadcast n m p r srv = srv\<lparr> osState :=
     (if accepted r then broadcast_until n m (ingested_event p r) (telemetryWsClients srv) (osState srv)
      else broadcast_until n m (rejected_event p r) (alertWsClients srv) (osState srv)) \<rparr>"

definition caught_broadcasting :: "('r, 'c) ingest_service \<Rightarrow> u64 \<Rightarrow> string list \<Rightarrow> nat \<Rightarrow> nat \<Rightarrow> ('r, 'c) http_server
    \<Rightarrow> ('r, 'c) http_server option" where
  "caught_broadcasting svc ms blocks n m srv =
     (case ParseHttpRequest (ReadHttpRequest blocks) of
        None \<Rightarrow> None
      | Some request \<Rightarrow>
          (let parsed = ParseTelemetryPacketJson (httpBody request)
           in if httpMethod request = ''POST'' \<and> StripQuery (httpPath request) = ''/api/v1/ingest'' \<and> ok parsed then
                (case Ingest svc ms (parsedPacket parsed) (gatewayState srv) of
                   (Inl e, g) \<Rightarrow> None
                 | (Inr r, g) \<Rightarrow>
                     Some (stop_listening (cut_broadcast n m (parsedPacket parsed) r (srv\<lparr> gatewayState := g \<rparr>))))
              else None))"

text \<open>
  The steps of the loop, and \<^verbatim>\<open>Stop\<close> from the signal handler while the loop is in
  \<^verbatim>\<open>accept\<close>, while it reads a request, during a broadcast, or after the loop. A new client gets a descriptor that is not open;
  \<^verbatim>\<open>accept\<close> can only succeed on an open listener.
\<close>

inductive server_step :: "('r, 'c) ingest_service \<Rightarrow> phase \<times> ('r, 'c) http_server \<Rightarrow> phase \<times> ('r, 'c) http_server \<Rightarrow> bool"
  for svc where
  accept_failed: "running srv \<Longrightarrow> server_step svc (Accepting, srv) (Accepting, srv)"
| leave: "\<not> running srv \<Longrightarrow> server_step svc (Accepting, srv) (Returned, srv)"
| closed: "\<lbrakk> running srv; 0 \<le> fd; fd \<notin> openFds (osState srv);
      HandleClient svc ms blocks fd (while_reading signal (srv\<lparr> osState := open_fd fd answers (osState srv) \<rparr>)) = (Inr False, srv');
      0 \<le> listenFd srv \<rbrakk> \<Longrightarrow>
    server_step svc (Accepting, srv) (Accepting, srv'\<lparr> osState := close_fd fd (osState srv') \<rparr>)"
| kept: "\<lbrakk> running srv; 0 \<le> fd; fd \<notin> openFds (osState srv);
      HandleClient svc ms blocks fd (while_reading signal (srv\<lparr> osState := open_fd fd answers (osState srv) \<rparr>)) = (Inr True, srv');
      0 \<le> listenFd srv \<rbrakk> \<Longrightarrow>
    server_step svc (Accepting, srv) (Accepting, srv')"
| crashed: "\<lbrakk> running srv; 0 \<le> fd; fd \<notin> openFds (osState srv);
      HandleClient svc ms blocks fd (while_reading signal (srv\<lparr> osState := open_fd fd answers (osState srv) \<rparr>)) = (Inl e, srv');
      0 \<le> listenFd srv \<rbrakk> \<Longrightarrow>
    server_step svc (Accepting, srv) (Thrown e, srv')"
| locked: "\<lbrakk> running srv; 0 \<le> fd; fd \<notin> openFds (osState srv);
      caught_broadcasting svc ms blocks n m (while_reading signal (srv\<lparr> osState := open_fd fd answers (osState srv) \<rparr>)) = Some srv';
      0 \<le> listenFd srv \<rbrakk> \<Longrightarrow>
    server_step svc (Accepting, srv) (Locked, srv')"
| signalled: "ph = Accepting \<or> ph = Returned \<Longrightarrow> server_step svc (ph, srv) (ph, Stop srv)"

inductive_cases server_step_elim: "server_step svc (Accepting, srv) p"
inductive_cases server_step_locked: "server_step svc (Locked, srv) p"

text \<open>The states a started server can be in.\<close>

inductive reachable :: "('r, 'c) ingest_service \<Rightarrow> ('r, 'c) gateway \<Rightarrow> phase \<times> ('r, 'c) http_server \<Rightarrow> bool"
  for svc g0 where
  started: "start_listening signal k (new_server g0) = (Inr (), srv) \<Longrightarrow> reachable svc g0 (Accepting, srv)"
| step: "\<lbrakk> reachable svc g0 p; server_step svc p q \<rbrakk> \<Longrightarrow> reachable svc g0 q"

section \<open>Sending\<close>

definition sends_something :: "send_answer \<Rightarrow> bool" where
  "sends_something a \<longleftrightarrow> (case a of Sent n \<Rightarrow> 0 < n | _ \<Rightarrow> False)"

lemma send_loop_sent:
  "0 < n \<Longrightarrow> k < length payload \<Longrightarrow>
    send_loop (Sent n # answers) payload k = send_loop answers payload (k + min n (length payload - k))"
  by (auto simp: Let_def)

lemma send_loop_offset:
  assumes "send_loop answers payload k = (complete, k', rest)" "k \<le> length payload"
  shows "k \<le> k' \<and> k' \<le> length payload \<and> (complete \<longleftrightarrow> k' = length payload)"
  using assms
proof (induction answers arbitrary: k)
  case (Cons a answers)
  show ?case
  proof (cases "k < length payload \<and> sends_something a")
    case True
    then obtain n where n: "0 < n" "a = Sent n" "k < length payload"
      by (cases a) (auto simp: sends_something_def)
    let ?k = "k + min n (length payload - k)"
    have le: "?k \<le> length payload" using n(3) by linarith
    have "send_loop answers payload ?k = (complete, k', rest)"
      using Cons.prems(1) n by (simp add: send_loop_sent del: send_loop.simps)
    from Cons.IH [OF this le] show ?thesis by linarith
  qed (use Cons in \<open>auto simp: sends_something_def split: if_splits send_answer.splits\<close>)
qed auto

lemma send_loop_completes:
  assumes "\<forall>a \<in> set answers. a = Interrupted \<or> sends_something a"
    and "length payload - k \<le> length (filter sends_something answers)" "k \<le> length payload"
  shows "fst (send_loop answers payload k)"
  using assms
proof (induction answers payload k rule: send_loop.induct)
  case (2 a answers payload offset)
  then show ?case by (cases a) (auto simp: Let_def sends_something_def min_def)
qed simp

text \<open>What a send changes: only the bytes taken for its descriptor.\<close>

definition sent_to :: "int \<Rightarrow> string \<Rightarrow> os_state \<Rightarrow> os_state \<Rightarrow> bool" where
  "sent_to fd s os os' \<longleftrightarrow> delivered os' = (delivered os)(fd := delivered os fd @ s) \<and>
     openFds os' = openFds os \<and> strayCloses os' = strayCloses os"

lemma SendAll_cases:
  assumes "SendAll fd payload os = (sent, os')"
  obtains s where "sent_to fd s os os'" "prefix s payload" "sent \<longleftrightarrow> s = payload"
proof -
  obtain k rest where loop: "send_loop (sendAnswers os) payload 0 = (sent, k, rest)"
    and os': "os' = os\<lparr>delivered := (delivered os)(fd := delivered os fd @ take k payload), sendAnswers := rest\<rparr>"
    using assms by (auto simp: SendAll_def split: prod.splits)
  from send_loop_offset [OF loop] have "sent \<longleftrightarrow> take k payload = payload"
    by (metis le0 take_all_iff antisym order_refl)
  with os' show thesis by (intro that [of "take k payload"]) (auto simp: sent_to_def take_is_prefix)
qed

text \<open>
  \<^verbatim>\<open>SendAll\<close> delivers the payload or says that it did not. The kernel has then taken a
  prefix of the payload for the descriptor, the whole exactly when the result is true, and nothing
  for any other descriptor. Partial sends and interruptions are retried: if each answer is an
  interruption or takes at least one byte, and there are enough of them, the result is true.
\<close>
lemma SendAll_delivers:
  "(\<exists>s. delivered (snd (SendAll fd payload os)) = (delivered os)(fd := delivered os fd @ s) \<and> prefix s payload \<and>
      (fst (SendAll fd payload os) \<longleftrightarrow> s = payload)) \<and>
   ((\<forall>a \<in> set (sendAnswers os). a = Interrupted \<or> sends_something a) \<and>
      length payload \<le> length (filter sends_something (sendAnswers os)) \<longrightarrow> fst (SendAll fd payload os))"
proof -
  obtain sent os' where run: "SendAll fd payload os = (sent, os')" by fastforce
  from SendAll_cases [OF this] obtain s where "sent_to fd s os os'" "prefix s payload" "sent \<longleftrightarrow> s = payload" .
  moreover have "fst (SendAll fd payload os)"
    if "\<forall>a \<in> set (sendAnswers os). a = Interrupted \<or> sends_something a"
      "length payload \<le> length (filter sends_something (sendAnswers os))"
    using send_loop_completes [OF that(1), of payload 0] that(2) by (simp add: SendAll_def case_prod_beta)
  ultimately show ?thesis by (auto simp: run sent_to_def)
qed

lemma SendAll_open [simp]:
  "openFds (snd (SendAll fd payload os)) = openFds os" "strayCloses (snd (SendAll fd payload os)) = strayCloses os"
  by (simp_all add: SendAll_def split: prod.splits)

section \<open>Broadcasts\<close>

text \<open>
  What a broadcast does to one descriptor, for the subscribers \<open>fds\<close> of which \<open>active\<close> stay, and
  to the state.
\<close>

definition got_frame :: "string \<Rightarrow> int list \<Rightarrow> int list \<Rightarrow> os_state \<Rightarrow> os_state \<Rightarrow> int \<Rightarrow> bool" where
  "got_frame frame fds active os os' fd \<longleftrightarrow>
     (if fd \<in> set active then delivered os' fd = delivered os fd @ frame
      else if fd \<in> set fds then \<exists>s. strict_prefix s frame \<and> delivered os' fd = delivered os fd @ s
      else delivered os' fd = delivered os fd)"

definition broadcast_to :: "string \<Rightarrow> int list \<Rightarrow> int list \<Rightarrow> os_state \<Rightarrow> os_state \<Rightarrow> bool" where
  "broadcast_to frame fds active os os' \<longleftrightarrow> subseq active fds \<and>
     openFds os' = openFds os - (set fds - set active) \<and> strayCloses os' = strayCloses os \<and>
     (\<forall>fd. got_frame frame fds active os os' fd)"

lemma subseq_set: "subseq xs ys \<Longrightarrow> set xs \<subseteq> set ys"
  by (auto dest: list_emb_set)

lemma broadcast_to_kept:
  assumes "sent_to fd frame os os1" "broadcast_to frame fds active os1 os'" "fd \<notin> set fds"
  shows "broadcast_to frame (fd # fds) (fd # active) os os'"
proof -
  have "fd \<notin> set active" using assms(2,3) subseq_set by (auto simp: broadcast_to_def)
  have "got_frame frame (fd # fds) (fd # active) os os' x" for x
  proof -
    have "got_frame frame fds active os1 os' x" using assms(2) by (simp add: broadcast_to_def)
    then show ?thesis
      using assms(1,3) \<open>fd \<notin> set active\<close> by (cases "x = fd") (auto simp: got_frame_def sent_to_def split: if_splits)
  qed
  then show ?thesis using assms \<open>fd \<notin> set active\<close> by (auto simp: broadcast_to_def sent_to_def)
qed

lemma broadcast_to_dropped:
  assumes "sent_to fd s os os1" "strict_prefix s frame" "broadcast_to frame fds active (close_fd fd os1) os'"
    and "fd \<notin> set fds" "fd \<in> openFds os"
  shows "broadcast_to frame (fd # fds) active os os'"
proof -
  have "fd \<notin> set active" using assms(3,4) subseq_set by (auto simp: broadcast_to_def)
  have "got_frame frame (fd # fds) active os os' x" for x
  proof -
    have "got_frame frame fds active (close_fd fd os1) os' x" using assms(3) by (simp add: broadcast_to_def)
    then show ?thesis
      using assms(1,2,4) \<open>fd \<notin> set active\<close>
      by (cases "x = fd") (auto simp: got_frame_def sent_to_def close_fd_def)
  qed
  then show ?thesis
    using assms(1,3-5) \<open>fd \<notin> set active\<close> by (auto simp: broadcast_to_def sent_to_def close_fd_def)
qed

lemma broadcast_loop_to:
  assumes "broadcast_loop frame fds os = (active, os')" "distinct fds" "set fds \<subseteq> openFds os"
  shows "broadcast_to frame fds active os os'"
  using assms
proof (induction fds arbitrary: os active)
  case Nil
  then show ?case by (simp add: broadcast_to_def got_frame_def)
next
  case (Cons fd fds)
  obtain sent os1 where run: "SendAll fd frame os = (sent, os1)" by fastforce
  from SendAll_cases [OF this] obtain s where s: "sent_to fd s os os1" "prefix s frame" "sent \<longleftrightarrow> s = frame" .
  have opened: "set fds \<subseteq> openFds os1" "set fds \<subseteq> openFds (close_fd fd os1)"
    using Cons.prems(2,3) s(1) by (auto simp: sent_to_def close_fd_def)
  show ?case
  proof (cases sent)
    case True
    then obtain rest where rest: "broadcast_loop frame fds os1 = (rest, os')" "active = fd # rest"
      using Cons.prems(1) run by (auto split: prod.splits)
    with Cons.IH [OF rest(1)] s True Cons.prems(2) opened broadcast_to_kept show ?thesis by simp
  next
    case False
    then have rest: "broadcast_loop frame fds (close_fd fd os1) = (active, os')"
      using Cons.prems(1) run by simp
    with Cons.IH [OF rest] s False Cons.prems(2,3) opened broadcast_to_dropped show ?thesis
      by (simp add: strict_prefix_def)
  qed
qed

lemma SendAll_delivers_witness:
  "delivered (snd (SendAll 4 ''abc'' \<lparr> openFds = {4}, delivered = \<lambda>_. [],
       sendAnswers = [Sent 1, Interrupted, Sent 1, Sent 7], strayCloses = 0 \<rparr>)) 4 = ''abc''"
  using SendAll_delivers [of 4 "''abc''" "\<lparr> openFds = {4}, delivered = \<lambda>_. [],
       sendAnswers = [Sent 1, Interrupted, Sent 1, Sent 7], strayCloses = 0 \<rparr>"]
  by (auto simp: sends_something_def)

text \<open>What the subscribers \<open>fds\<close> of a channel get of one event, when \<open>active\<close> of them stay.\<close>

definition notified :: "string \<Rightarrow> int list \<Rightarrow> int list \<Rightarrow> os_state \<Rightarrow> os_state \<Rightarrow> bool" where
  "notified event fds active os os' \<longleftrightarrow>
     subseq active fds \<and> openFds os' = openFds os - (set fds - set active) \<and> strayCloses os' = strayCloses os
     \<and> (\<forall>fd \<in> set active. \<exists>bytes. delivered os' fd = delivered os fd @ bytes \<and> read_frame bytes = Some (event, []))
     \<and> (\<forall>fd \<in> set fds - set active. \<exists>s. strict_prefix s (BuildWebSocketFrame event) \<and> delivered os' fd = delivered os fd @ s)
     \<and> (\<forall>fd. fd \<notin> set fds \<longrightarrow> delivered os' fd = delivered os fd)"

lemma broadcast_notifies:
  assumes "distinct clients" and "set clients \<subseteq> openFds os" and "length payload < 2 ^ 64"
    and "BroadcastMessage payload clients os = (active, os')"
  shows "notified payload clients active os os'"
proof -
  have B: "broadcast_to (BuildWebSocketFrame payload) clients active os os'"
    using assms by (intro broadcast_loop_to) (simp_all add: BroadcastMessage_def)
  then have got: "got_frame (BuildWebSocketFrame payload) clients active os os' fd" for fd
    by (simp add: broadcast_to_def)
  have sub: "set active \<subseteq> set clients" using B by (intro subseq_set) (simp add: broadcast_to_def)
  have "read_frame (BuildWebSocketFrame payload) = Some (payload, [])"
    using BuildWebSocketFrame_parse [OF assms(3), of "[]"] by simp
  then have "\<forall>fd \<in> set active. \<exists>bytes. delivered os' fd = delivered os fd @ bytes \<and> read_frame bytes = Some (payload, [])"
    using got by (auto simp: got_frame_def)
  moreover have "\<forall>fd \<in> set clients - set active. \<exists>s. strict_prefix s (BuildWebSocketFrame payload)
      \<and> delivered os' fd = delivered os fd @ s"
  proof
    fix fd assume "fd \<in> set clients - set active"
    with got [of fd] show "\<exists>s. strict_prefix s (BuildWebSocketFrame payload) \<and> delivered os' fd = delivered os fd @ s"
      by (simp add: got_frame_def)
  qed
  moreover have "\<forall>fd. fd \<notin> set clients \<longrightarrow> delivered os' fd = delivered os fd"
  proof (intro allI impI)
    fix fd assume "fd \<notin> set clients"
    moreover from this sub have "fd \<notin> set active" by blast
    ultimately show "delivered os' fd = delivered os fd" using got [of fd] by (simp add: got_frame_def)
  qed
  ultimately show ?thesis using B by (simp add: notified_def broadcast_to_def)
qed

text \<open>
  C14: a broadcast. Over distinct open subscribers \<^verbatim>\<open>BroadcastMessage\<close> keeps, in order, those that
  took the whole frame and closes the others, each exactly once; every kept subscriber has got,
  after what it had before, exactly one frame, which it reads back as the payload; a dropped one
  has got a proper part of the frame, and no other descriptor anything.
\<close>
theorem BroadcastMessage_delivers:
  assumes "distinct clients" and "set clients \<subseteq> openFds os" and "length payload < 2 ^ 64"
    and "BroadcastMessage payload clients os = (active, os')"
  shows "subseq active clients \<and> openFds os' = openFds os - (set clients - set active) \<and> strayCloses os' = strayCloses os
    \<and> (\<forall>fd \<in> set active. \<exists>bytes. delivered os' fd = delivered os fd @ bytes \<and> read_frame bytes = Some (payload, []))
    \<and> (\<forall>fd \<in> set clients - set active. \<exists>s. strict_prefix s (BuildWebSocketFrame payload) \<and> delivered os' fd = delivered os fd @ s)
    \<and> (\<forall>fd. fd \<notin> set clients \<longrightarrow> delivered os' fd = delivered os fd)"
  using broadcast_notifies [OF assms] by (simp add: notified_def)

definition demo_os :: os_state where
  "demo_os = \<lparr> openFds = {3, 4, 5}, delivered = \<lambda>_. [], sendAnswers = [Sent 2, Sent 9, Sent 2, SendFailed], strayCloses = 0 \<rparr>"

lemma demo_broadcast: "fst (BroadcastMessage ''hi'' [4, 5] demo_os) = [4]"
proof -
  have "length (BuildWebSocketFrame ''hi'') = 4" by (simp add: BuildWebSocketFrame_def)
  then have "send_loop [Sent 2, Sent 9, Sent 2, SendFailed] (BuildWebSocketFrame ''hi'') 0 = (True, 4, [Sent 2, SendFailed])"
    "send_loop [Sent 2, SendFailed] (BuildWebSocketFrame ''hi'') 0 = (False, 2, [])" by simp_all
  then show ?thesis by (simp add: BroadcastMessage_def SendAll_def demo_os_def)
qed

theorem BroadcastMessage_delivers_witness: "openFds (snd (BroadcastMessage ''hi'' [4, 5] demo_os)) = {3, 4}"
proof (cases "BroadcastMessage ''hi'' [4, 5] demo_os")
  case (Pair active os')
  then have run: "BroadcastMessage ''hi'' [4, 5] demo_os = ([4], os')" using demo_broadcast by simp
  have "distinct [4, 5 :: int]" "set [4, 5] \<subseteq> openFds demo_os" "length ''hi'' < 2 ^ 64" by (simp_all add: demo_os_def)
  note result = BroadcastMessage_delivers [OF this run]
  have "openFds os' = openFds demo_os - (set [4, 5] - set [4])" using result by (elim conjE)
  also have "\<dots> = {3, 4}" by (auto simp: demo_os_def)
  finally show ?thesis by (simp only: Pair snd_conv)
qed

definition demo_started :: "(in_memory, u64) http_server" where
  "demo_started = snd (start_listening None \<lparr> socketAnswer = 3, bindAnswer = 0, listenAnswer = 0 \<rparr> (new_server (new_gateway mem_empty mock_counter)))"

lemma demo_started_simps: "listenFd demo_started = 3" "openFds (osState demo_started) = {3}"
  by (simp_all add: demo_started_def start_listening_def Let_def new_server_def open_fd_def)

end
