(* ===== verification/Server_Routes.thy ===== *)
theory Server_Routes
  imports Http_Server
begin

text \<open>
  What the server of \<^verbatim>\<open>src/api/http_server.cpp\<close> answers and whom it tells: the routes after an
  ingest, the effect of any request, the WebSocket handshake, and the events to the subscribers.
\<close>

section \<open>What a client reads after an ingest\<close>

lemma memory_run_next_id:
  assumes "gateway_run (memory_service b keys chain h) calls g = (results, g')" "mem_inv (repositoryState g)"
    and "unat (nextRecordId (repositoryState g)) + length calls < 2 ^ 64"
  shows "unat (nextRecordId (repositoryState g')) \<le> unat (nextRecordId (repositoryState g)) + length calls"
  using assms
proof (induction calls arbitrary: g results)
  case (Cons call calls)
  obtain res g1 where one: "Ingest (memory_service b keys chain h) (fst call) (snd call) g = (res, g1)"
    by fastforce
  obtain rs g2 where rest: "gateway_run (memory_service b keys chain h) calls g1 = (rs, g2)" by fastforce
  with one Cons.prems(1) have eq: "g2 = g'" by auto
  have room: "mem_room (repositoryState g)" by (rule mem_room_unat) (use Cons.prems(3) in simp)
  have "mem_inv (repositoryState g1)" using mem_client.Ingest_exact [OF Cons.prems(2) room one] by blast
  from Cons.IH [OF rest [unfolded eq] this] mem_next_id [OF one room] Cons.prems(3) show ?case by simp
qed simp

lemma memory_accepted:
  assumes run: "Ingest (memory_service b keys chain h) ms p g = (Inr r, g')" and "accepted r"
    and inv: "mem_inv (repositoryState g)" and room: "mem_room (repositoryState g)"
  obtains rc where "resultReceipt r = Some rc" "mem_inv (repositoryState g')"
    "records (repositoryState g') = records (repositoryState g) @
       [\<lparr> recordId = resultRecordId r, packet = p, receipt = Some rc \<rparr>]"
    "recordIdByTxHash (repositoryState g') (txHash rc) = Some (resultRecordId r)"
proof -
  from mem_client.Ingest_exact [OF inv room run] \<open>accepted r\<close> obtain rc where
    rc: "resultReceipt r = Some rc" "mem_inv (repositoryState g')"
      "records (repositoryState g') = records (repositoryState g) @
         [\<lparr> recordId = resultRecordId r, packet = p, receipt = Some rc \<rparr>]"
    by auto
  have ok: "packet_ok (memory_service b keys chain h) p"
    using run \<open>accepted r\<close> Ingest_rejects [of "memory_service b keys chain h" p ms g]
    by (cases "packet_ok (memory_service b keys chain h) p") (auto simp: finish_simps)
  have "recordIdByTxHash (repositoryState g') (txHash rc) = Some (resultRecordId r)"
    using run [unfolded Ingest_two_phase [OF ok]] rc(1) \<open>accepted r\<close>
    by (auto simp: two_phase_def in_memory_repository_def mem_Save_def mem_AttachReceipt_def mem_Delete_def
        fail_after_save_def rollbackBestEffort_def finish_simps Let_def split: sum.splits prod.splits)
  with rc that show thesis by blast
qed

lemma read_device:
  "d \<noteq> [] \<Longrightarrow> read_route svc ''GET'' (''/api/v1/devices/'' @ d @ ''/latest'') g =
     record_response ''device not found'' (LatestByDevice (repository svc) d (repositoryState g))"
  using ExtractPathParam_parts [of "''/api/v1/devices/'' @ d @ ''/latest''" "''/api/v1/devices/''" "''/latest''" d]
  by (simp add: read_route_def)

lemma not_device_path: "ExtractPathParam (''/api/v1/batches/'' @ c) ''/api/v1/devices/'' s = None"
  "ExtractPathParam (''/api/v1/transactions/'' @ c) ''/api/v1/devices/'' s = None"
  "ExtractPathParam (''/api/v1/transactions/'' @ c) ''/api/v1/batches/'' s = None"
  by (simp_all add: ExtractPathParam_def starts_with_def)

lemma read_batch:
  "c \<noteq> [] \<Longrightarrow> read_route svc ''GET'' (''/api/v1/batches/'' @ c @ ''/trace'') g =
     (case FindByBatch (repository svc) c (repositoryState g) of
        Inl e \<Rightarrow> Inl e | Inr found \<Rightarrow> Inr (json_response 200 (trace_body c found)))"
  using ExtractPathParam_parts [of "''/api/v1/batches/'' @ c @ ''/trace''" "''/api/v1/batches/''" "''/trace''" c]
    not_device_path(1) [of "c @ ''/trace''"]
  by (simp add: read_route_def)

lemma read_transaction:
  "t \<noteq> [] \<Longrightarrow> read_route svc ''GET'' (''/api/v1/transactions/'' @ t) g =
     record_response ''transaction not found'' (FindByTransaction (repository svc) t (repositoryState g))"
  using ExtractPathParam_parts [of "''/api/v1/transactions/'' @ t" "''/api/v1/transactions/''" "[]" t]
    not_device_path(2,3) [of t]
  by (simp add: read_route_def)

lemma gateway_of_broadcast [simp]: "gatewayState (BroadcastIngestEvent p r srv) = gatewayState srv"
  by (simp add: BroadcastIngestEvent_def split: prod.splits)

definition get_request :: "string \<Rightarrow> http_request" where
  "get_request path = \<lparr> httpMethod = ''GET'', httpPath = path, httpHeaders = [], httpBody = [] \<rparr>"

lemma Route_read:
  assumes "p \<noteq> ''/health''" "CHR ''?'' \<notin> set p"
  shows "Route svc ms (get_request p) srv = (read_route svc ''GET'' p (gatewayState srv), srv)"
  using assms by (simp add: Route_def get_request_def StripQuery_query)

definition post_request :: "string \<Rightarrow> http_request" where
  "post_request body = \<lparr> httpMethod = ''POST'', httpPath = ''/api/v1/ingest'', httpHeaders = [], httpBody = body \<rparr>"

lemma ingest_route_accepted:
  assumes "Route svc ms (post_request body) srv = (Inr resp, srv')" "statusCode resp = 202"
  obtains res g' where "Ingest svc ms (parsedPacket (ParseTelemetryPacketJson body)) (gatewayState srv) = (Inr res, g')"
    "accepted res" "gatewayState srv' = g'" "deviceId (parsedPacket (ParseTelemetryPacketJson body)) \<noteq> []"
proof -
  let ?p = "parsedPacket (ParseTelemetryPacketJson body)"
  obtain x g' where ingest: "Ingest svc ms ?p (gatewayState srv) = (x, g')" by fastforce
  have "ingest_route svc ms body srv = (Inr resp, srv')"
    using assms(1) by (simp add: Route_def post_request_def StripQuery_def)
  then obtain res where res: "x = Inr res" "accepted res" "gatewayState srv' = g'"
    using assms(2) ingest
    by (auto simp: ingest_route_def Let_def json_response_def split: if_splits sum.splits)
  then have "packet_ok svc ?p"
    using ingest Ingest_rejects [of svc ?p ms "gatewayState srv"] by (cases "packet_ok svc ?p") (auto simp: finish_simps)
  with res ingest that show thesis by (auto simp: packet_ok_def)
qed

lemma Route_device:
  assumes "d \<noteq> []" "CHR ''?'' \<notin> set d"
  shows "Route svc ms (get_request (''/api/v1/devices/'' @ d @ ''/latest'')) srv =
    (record_response ''device not found'' (LatestByDevice (repository svc) d (repositoryState (gatewayState srv))), srv)"
  unfolding read_device [OF assms(1), symmetric] by (rule Route_read) (use assms in auto)

lemma Route_batch:
  assumes "c \<noteq> []" "CHR ''?'' \<notin> set c"
  shows "Route svc ms (get_request (''/api/v1/batches/'' @ c @ ''/trace'')) srv =
    (case FindByBatch (repository svc) c (repositoryState (gatewayState srv)) of
       Inl e \<Rightarrow> Inl e | Inr found \<Rightarrow> Inr (json_response 200 (trace_body c found)), srv)"
  unfolding read_batch [OF assms(1), symmetric] by (rule Route_read) (use assms in auto)

lemma Route_transaction:
  assumes "t \<noteq> []" "CHR ''?'' \<notin> set t"
  shows "Route svc ms (get_request (''/api/v1/transactions/'' @ t)) srv =
    (record_response ''transaction not found'' (FindByTransaction (repository svc) t (repositoryState (gatewayState srv))), srv)"
  unfolding read_transaction [OF assms(1), symmetric] by (rule Route_read) (use assms in auto)



definition demo_body :: string where
  "demo_body = request_json ''sensor'' 1700000000 ''{}'' (hashHex demo_packet) (signature demo_packet)
     (Some ''key'') (Some ''wifi'') (Some ''B1'')"

lemma demo_body_parsed: "ParseTelemetryPacketJson demo_body = \<lparr> ok = True, parsedPacket = demo_packet, parseError = [] \<rparr>"
proof -
  let ?h = "Sha256Hex demo_hash (canonical demo_packet)"
  have p: "hashHex demo_packet = ?h" "signature demo_packet = ?h @ '':key''"
    by (simp_all add: demo_packet_def Let_def canonical_def)
  have "IsHex64 ?h" by (rule IsHex64_Sha256Hex) (simp add: demo_hash_def)
  then have "no_quote ?h" by (auto simp: IsHex64_def list_all_iff is_xdigit_def is_digit_def)
  then have "no_quote (hashHex demo_packet)" "no_quote (signature demo_packet)" by (simp_all add: p)
  moreover have "clean_object ''{}''" by (simp add: clean_object_def json_object_def late_keys_def quoted_def)
  ultimately have "ParseTelemetryPacketJson demo_body = \<lparr> ok = True,
      parsedPacket = \<lparr> deviceId = ''sensor'', timestamp = 1700000000, telemetryJson = ''{}'', hashHex = hashHex demo_packet,
        signature = signature demo_packet, pubKeyId = ''key'', transport = ''wifi'', batchCode = ''B1'' \<rparr>, parseError = [] \<rparr>"
    unfolding demo_body_def by (subst parse_request) (simp_all add: quote_free_opt_def value_or_def)
  then show ?thesis by (simp add: demo_packet_def Let_def)
qed

lemma demo_ingest:
  assumes "gatewayState srv = new_gateway mem_empty mock_counter"
  obtains resp srv' where "Route demo_service 5 (post_request demo_body) srv = (Inr resp, srv')" "statusCode resp = 202"
proof -
  obtain x g' where run: "Ingest demo_service 5 demo_packet (gatewayState srv) = (x, g')" by fastforce
  have "mem_inv (repositoryState (gatewayState srv))" "mem_room (repositoryState (gatewayState srv))"
    using mem_inv_empty by (simp_all add: assms new_gateway_def mem_room_def mem_empty_def)
  from mem_client.Ingest_exact [OF this run [unfolded demo_service_memory]]
  obtain r where r: "x = Inr r" "accepted r \<longleftrightarrow> packet_ok demo_service demo_packet \<and>
      (\<exists>rc. chain_answer demo_service demo_packet (chainState (gatewayState srv)) = Inr rc)"
    by (auto simp: demo_service_memory)
  have "\<exists>rc. chain_answer demo_service demo_packet (chainState (gatewayState srv)) = Inr rc"
    by (simp add: chain_answer_def demo_service_def mock_client_def mock_SubmitHash_def Let_def)
  with r demo_packet_ok have "accepted r" by simp
  with run r(1) that show thesis
    by (simp add: Route_def post_request_def StripQuery_def ingest_route_def demo_body_parsed json_response_def)
qed


section \<open>What a request can cause\<close>

text \<open>
  C25: the routes. An answer has one of the four status codes, 202 only for an accepted ingest, and
  JSON content; a request that is no POST to the ingest route leaves the server and the gateway
  exactly as they were, and no request, whatever it answers, starts, stops or moves the listener.
\<close>
theorem Route_answers:
  "(\<forall>resp. fst (Route svc ms request srv) = Inr resp \<longrightarrow>
      statusCode resp \<in> {200, 202, 400, 404} \<and> contentType resp = ''application/json'' \<and>
      (statusCode resp = 202 \<longrightarrow> httpMethod request = ''POST'' \<and> StripQuery (httpPath request) = ''/api/v1/ingest''))
   \<and> (httpMethod request \<noteq> ''POST'' \<or> StripQuery (httpPath request) \<noteq> ''/api/v1/ingest'' \<longrightarrow>
        snd (Route svc ms request srv) = srv)
   \<and> running (snd (Route svc ms request srv)) = running srv \<and> listenFd (snd (Route svc ms request srv)) = listenFd srv"
proof -
  have read: "statusCode resp \<in> {200, 404} \<and> contentType resp = ''application/json''"
    if "read_route svc m p g = Inr resp" for resp m p g
    using that by (auto simp: read_route_def record_response_def json_response_def Let_def split: if_splits option.splits sum.splits)
  have cast: "running (BroadcastIngestEvent p r s) = running s" "listenFd (BroadcastIngestEvent p r s) = listenFd s"
    for p r and s :: "('a, 'b) http_server"
    by (simp_all add: BroadcastIngestEvent_def split: prod.splits)
  have ingest: "statusCode resp \<in> {202, 400} \<and> contentType resp = ''application/json''"
    if "fst (ingest_route svc ms body srv) = Inr resp" for resp body
    using that by (auto simp: ingest_route_def json_response_def Let_def split: if_splits prod.splits sum.splits)
  have state: "running (snd (ingest_route svc ms body srv)) = running srv"
    "listenFd (snd (ingest_route svc ms body srv)) = listenFd srv" for body
    by (simp_all add: ingest_route_def Let_def cast split: prod.splits sum.splits)
  let ?path = "StripQuery (httpPath request)"
  consider "httpMethod request = ''GET''" "?path = ''/health''" | "httpMethod request = ''POST''" "?path = ''/api/v1/ingest''"
    | "\<not> (httpMethod request = ''GET'' \<and> ?path = ''/health'')" "\<not> (httpMethod request = ''POST'' \<and> ?path = ''/api/v1/ingest'')"
    by blast
  then show ?thesis
  proof cases
    case 1
    then show ?thesis by (simp add: Route_def json_response_def)
  next
    case 2
    then have "Route svc ms request srv = ingest_route svc ms (httpBody request) srv" by (simp add: Route_def)
    with 2 ingest [of "httpBody request"] state show ?thesis by auto
  next
    case 3
    then have eq: "Route svc ms request srv = (read_route svc (httpMethod request) ?path (gatewayState srv), srv)"
      by (simp only: Route_def Let_def if_False)
    have "statusCode resp \<in> {200, 202, 400, 404} \<and> contentType resp = ''application/json'' \<and> statusCode resp \<noteq> 202"
      if "read_route svc (httpMethod request) ?path (gatewayState srv) = Inr resp" for resp
      using read [OF that] by auto
    then show ?thesis unfolding eq by auto
  qed
qed

theorem Route_answers_witness:
  "snd (Route demo_service 1 (get_request ''/health'') (new_server (new_gateway mem_empty mock_counter))) =
     new_server (new_gateway mem_empty mock_counter)"
  using Route_answers [of demo_service 1 "get_request ''/health''" "new_server (new_gateway mem_empty mock_counter)"]
  by (simp add: get_request_def)

section \<open>The WebSocket handshake\<close>

definition header_value :: "(string \<times> string) list \<Rightarrow> string \<Rightarrow> string" where
  "header_value hs key = value_or (first_some (\<lambda>h. if ToLower (fst h) = ToLower key then Some (snd h) else None) hs) []"

lemma header_value_trimmed:
  assumes "\<forall>h \<in> set hs. header_ok h"
  shows "Trim (header_value hs key) = header_value hs key"
proof -
  have "trimmed (header_value hs key)"
    using assms by (induction hs) (auto simp: header_value_def value_or_def trimmed_def header_ok_def)
  from Trim_trimmed [OF this, of "[]"] show ?thesis by simp
qed

text \<open>The conditions of the upgrade.\<close>

definition upgrade_headers :: "(string \<times> string) list \<Rightarrow> bool" where
  "upgrade_headers hs \<longleftrightarrow> ToLower (header_value hs ''Upgrade'') = ''websocket'' \<and>
     str_find ''upgrade'' (ToLower (header_value hs ''Connection'')) \<noteq> None \<and>
     header_value hs ''Sec-WebSocket-Key'' \<noteq> []"

definition subscribe :: "string \<Rightarrow> int \<Rightarrow> ('r, 'c) http_server \<Rightarrow> ('r, 'c) http_server" where
  "subscribe path fd srv =
     (if path = ''/ws/telemetry'' then srv\<lparr>telemetryWsClients := telemetryWsClients srv @ [fd]\<rparr>
      else srv\<lparr>alertWsClients := alertWsClients srv @ [fd]\<rparr>)"

lemma HandleClient_websocket:
  assumes "ReadHttpRequest blocks = http_message ((''GET'' @ '' '' @ target @ '' '' @ ''HTTP/1.1'') # map header_line hs) body"
    and "http_word target" and "is_ws_path (StripQuery target)" and "hs \<noteq> []" and "\<forall>h \<in> set hs. header_ok h"
  shows "HandleClient svc ms blocks fd srv =
    (if upgrade_headers hs then
       (let (sent, os) = SendAll fd (switching_protocols (header_value hs ''Sec-WebSocket-Key'')) (osState srv)
        in (Inr sent, if sent then subscribe (StripQuery target) fd (srv\<lparr>osState := os\<rparr>) else srv\<lparr>osState := os\<rparr>))
     else (Inr False, send_response fd (json_response 400 (error_body ''invalid websocket upgrade'')) srv))"
proof -
  let ?headers = "header_block (map header_line hs)"
  let ?request = "\<lparr> httpMethod = ''GET'', httpPath = target, httpHeaders = ?headers, httpBody = body \<rparr>"
  have words: "http_word ''GET''" "http_word ''HTTP/1.1''" by (simp_all add: http_word_def is_space_def)
  have lines: "\<forall>l \<in> set (map header_line hs). http_line l"
    using assms(5) by (auto simp: header_ok_def header_line_def http_line_def)
  have "ParseHttpRequest (ReadHttpRequest blocks) = Some ?request"
    unfolding assms(1) using ParseHttpRequest_lines [OF words(1) assms(2) words(2) lines, of body] assms(4) by simp
  moreover have "ReadHttpRequest blocks \<noteq> []" unfolding assms(1) by (simp add: http_message_def)
  moreover have "GetHeaderValue ?headers key = header_value hs key" for key
    using GetHeaderValue_block [OF assms(5)] by (simp add: header_value_def)
  ultimately show ?thesis
    using assms(3) header_value_trimmed [OF assms(5)]
    by (auto simp: HandleClient_def TryUpgradeWebSocket_def upgrade_headers_def subscribe_def Let_def split: prod.splits)
qed

text \<open>
  C19: the WebSocket handshake. A GET of one of the two channels whose headers ask for the upgrade,
  with a key, in any case of letters, is answered 101 with the accept value of its key and, if the
  answer could be sent whole, kept open and added at the end of the subscribers of its channel, of
  no other; without those headers it is answered 400 and closed. The gateway is never involved.
\<close>
theorem websocket_handshake:
  assumes "ReadHttpRequest blocks = http_message ((''GET'' @ '' '' @ target @ '' '' @ ''HTTP/1.1'') # map header_line hs) body"
    and "http_word target" and "is_ws_path (StripQuery target)" and "hs \<noteq> []" and "\<forall>h \<in> set hs. header_ok h"
  shows "HandleClient svc ms blocks fd srv =
    (if upgrade_headers hs then
       (let (sent, os) = SendAll fd (switching_protocols (header_value hs ''Sec-WebSocket-Key'')) (osState srv)
        in (Inr sent, if sent then subscribe (StripQuery target) fd (srv\<lparr>osState := os\<rparr>) else srv\<lparr>osState := os\<rparr>))
     else (Inr False, send_response fd (json_response 400 (error_body ''invalid websocket upgrade'')) srv))"
  by (rule HandleClient_websocket [OF assms])

lemma ReadHttpRequest_one: "b \<noteq> [] \<Longrightarrow> ReadHttpRequest [b] = b"
  by (auto simp: ReadHttpRequest_def kMaxRequestBytes_def Let_def simp del: str_find.simps split: option.splits)

lemma send_loop_whole: "p \<noteq> [] \<Longrightarrow> send_loop [Sent (length p)] p 0 = (True, length p, [])"
  by simp

definition demo_headers :: "(string \<times> string) list" where
  "demo_headers = [(''Upgrade'', ''WebSocket''), (''Connection'', ''keep-alive, Upgrade''),
     (''Sec-WebSocket-Key'', ''dGhlIHNhbXBsZSBub25jZQ=='')]"

lemma SendAll_taken:
  assumes "sendAnswers os = [Sent (length p)]" "p \<noteq> []"
  obtains os' where "SendAll fd p os = (True, os')" "openFds os' = openFds os"
proof -
  have "fst (SendAll fd p os)" using send_loop_whole [OF assms(2)] by (simp only: SendAll_def assms(1) prod.case fst_conv)
  then have "SendAll fd p os = (True, snd (SendAll fd p os))" by (simp add: prod_eq_iff)
  with that SendAll_open show thesis by blast
qed

lemma demo_handshake:
  "http_word ''/ws/telemetry''" "is_ws_path (StripQuery ''/ws/telemetry'')" "StripQuery ''/ws/telemetry'' = ''/ws/telemetry''"
  "\<forall>h \<in> set demo_headers. header_ok h" "upgrade_headers demo_headers" "demo_headers \<noteq> []"
  "header_value demo_headers ''Sec-WebSocket-Key'' = ''dGhlIHNhbXBsZSBub25jZQ==''"
proof -
  show "http_word ''/ws/telemetry''" by (simp add: http_word_def is_space_def)
  show "StripQuery ''/ws/telemetry'' = ''/ws/telemetry''" by (rule StripQuery_query) simp
  then show "is_ws_path (StripQuery ''/ws/telemetry'')" by (simp add: is_ws_path_def)
  show "\<forall>h \<in> set demo_headers. header_ok h" "upgrade_headers demo_headers" "demo_headers \<noteq> []"
      "header_value demo_headers ''Sec-WebSocket-Key'' = ''dGhlIHNhbXBsZSBub25jZQ==''"
    by code_simp+
qed

theorem websocket_handshake_witness:
  "let blocks = [http_message (''GET /ws/telemetry HTTP/1.1'' # map header_line demo_headers) []];
       answer = switching_protocols ''dGhlIHNhbXBsZSBub25jZQ=='';
       srv = demo_started\<lparr>osState := open_fd 4 [Sent (length answer)] (osState demo_started)\<rparr>
   in fst (HandleClient demo_service 1 blocks 4 srv) = Inr True
      \<and> telemetryWsClients (snd (HandleClient demo_service 1 blocks 4 srv)) = [4]"
proof -
  let ?p = "switching_protocols ''dGhlIHNhbXBsZSBub25jZQ==''"
  let ?block = "http_message ((''GET'' @ '' '' @ ''/ws/telemetry'' @ '' '' @ ''HTTP/1.1'') # map header_line demo_headers) []"
  let ?srv = "demo_started\<lparr>osState := open_fd 4 [Sent (length ?p)] (osState demo_started)\<rparr>"
  have read: "ReadHttpRequest [?block] = ?block" by (rule ReadHttpRequest_one) (simp add: http_message_def)
  have run: "HandleClient demo_service 1 [?block] 4 ?srv =
      (let (sent, os) = SendAll 4 ?p (osState ?srv)
       in (Inr sent, if sent then subscribe ''/ws/telemetry'' 4 (?srv\<lparr>osState := os\<rparr>) else ?srv\<lparr>osState := os\<rparr>))"
    using websocket_handshake [OF read demo_handshake(1,2,6,4), of demo_service 1 4 ?srv]
    by (simp only: demo_handshake(3,5,7) if_True)
  have "sendAnswers (osState ?srv) = [Sent (length ?p)]" "?p \<noteq> []" by (simp_all add: open_fd_def switching_protocols_def)
  from SendAll_taken [OF this] obtain os' where "SendAll 4 ?p (osState ?srv) = (True, os')" by blast
  moreover have "telemetryWsClients ?srv = []"
    by (simp add: demo_started_def start_listening_def Let_def new_server_def)
  ultimately show ?thesis using run by (simp add: subscribe_def)
qed

section \<open>Notifications\<close>

text \<open>The subscribers of both channels.\<close>

definition subscribers :: "('r, 'c) http_server \<Rightarrow> int list" where
  "subscribers srv = telemetryWsClients srv @ alertWsClients srv"

lemma subscribers_simps [simp]:
  "subscribers (send_response fd r srv) = subscribers srv"
  "subscribers (srv\<lparr>gatewayState := g\<rparr>) = subscribers srv"
  "subscribers (srv\<lparr>osState := os\<rparr>) = subscribers srv"
  by (simp_all add: send_response_def subscribers_def)

text \<open>
  C13: who hears of an ingest. A POST of a body that parses and whose ingest returns is told to the
  subscribers of one channel: telemetry when it was accepted, alerts when not. Each of them that
  stays has got exactly one frame more, which reads back as the event, the others of that channel
  are closed, nobody else gets anything, and the list of the other channel is as before. A body that
  does not parse, or an ingest that throws, is told to nobody.
\<close>
theorem ingest_notifies:
  fixes body :: string and ms :: u64 and svc :: "('r, 'c) ingest_service" and srv :: "('r, 'c) http_server"
  assumes "distinct (subscribers srv)" and "set (subscribers srv) \<subseteq> openFds (osState srv)"
  defines "parsed \<equiv> ParseTelemetryPacketJson body"
  defines "outcome \<equiv> fst (Ingest svc ms (parsedPacket parsed) (gatewayState srv))"
  defines "srv' \<equiv> snd (Route svc ms (post_request body) srv)"
  shows "(case outcome of
      Inr r \<Rightarrow> ok parsed \<longrightarrow>
        (if accepted r
         then alertWsClients srv' = alertWsClients srv
           \<and> (length (ingested_event (parsedPacket parsed) r) < 2 ^ 64 \<longrightarrow>
                notified (ingested_event (parsedPacket parsed) r) (telemetryWsClients srv) (telemetryWsClients srv')
                  (osState srv) (osState srv'))
         else telemetryWsClients srv' = telemetryWsClients srv
           \<and> (length (rejected_event (parsedPacket parsed) r) < 2 ^ 64 \<longrightarrow>
                notified (rejected_event (parsedPacket parsed) r) (alertWsClients srv) (alertWsClients srv')
                  (osState srv) (osState srv')))
    | Inl e \<Rightarrow> osState srv' = osState srv \<and> subscribers srv' = subscribers srv)
    \<and> (\<not> ok parsed \<longrightarrow> srv' = srv)"
proof -
  obtain x g' where run: "Ingest svc ms (parsedPacket parsed) (gatewayState srv) = (x, g')" by fastforce
  have route: "srv' = snd (ingest_route svc ms body srv)"
    by (simp add: srv'_def Route_def post_request_def StripQuery_def)
  show ?thesis
  proof (cases "ok parsed")
    case False
    then have "srv' = srv" by (simp add: route ingest_route_def Let_def parsed_def)
    with False show ?thesis by (simp split: sum.splits)
  next
    case ok: True
    show ?thesis
    proof (cases x)
      case (Inl e)
      with ok run have "srv' = srv\<lparr>gatewayState := g'\<rparr>"
        by (simp add: route ingest_route_def Let_def flip: parsed_def)
      with Inl run ok show ?thesis by (simp add: outcome_def)
    next
      case (Inr r)
      with ok run have srv': "srv' = BroadcastIngestEvent (parsedPacket parsed) r (srv\<lparr>gatewayState := g'\<rparr>)"
        by (simp add: route ingest_route_def Let_def flip: parsed_def)
      have lists: "distinct (telemetryWsClients srv)" "distinct (alertWsClients srv)"
          "set (telemetryWsClients srv) \<subseteq> openFds (osState srv)" "set (alertWsClients srv) \<subseteq> openFds (osState srv)"
        using assms(1,2) by (simp_all add: subscribers_def)
      obtain ta tos where t: "BroadcastMessage (ingested_event (parsedPacket parsed) r) (telemetryWsClients srv) (osState srv) = (ta, tos)"
        by fastforce
      obtain aa aos where a: "BroadcastMessage (rejected_event (parsedPacket parsed) r) (alertWsClients srv) (osState srv) = (aa, aos)"
        by fastforce
      from broadcast_notifies [OF lists(1,3) _ t] broadcast_notifies [OF lists(2,4) _ a] show ?thesis
        using Inr run ok by (simp add: outcome_def srv' BroadcastIngestEvent_def t a)
    qed
  qed
qed


definition strict_service :: "(in_memory, u64) ingest_service" where
  "strict_service = demo_service\<lparr>signatureVerifier := (\<lambda>_. False)\<rparr>"

definition demo_subscribed :: "(in_memory, u64) http_server" where
  "demo_subscribed = demo_started\<lparr>telemetryWsClients := [4], alertWsClients := [5],
     osState := \<lparr> openFds = {3, 4, 5}, delivered = \<lambda>_. [], sendAnswers = [Sent 1000], strayCloses = 0 \<rparr>\<rparr>"

theorem ingest_notifies_witness:
  "let srv' = snd (Route strict_service 1 (post_request demo_body) demo_subscribed)
   in telemetryWsClients srv' = [4] \<and> delivered (osState srv') 4 = []
      \<and> notified ''{\"type\":\"ingest.rejected\",\"deviceId\":\"sensor\",\"message\":\"signature verification failed\"}''
          [5] (alertWsClients srv') (osState demo_subscribed) (osState srv')"
proof -
  let ?srv' = "snd (Route strict_service 1 (post_request demo_body) demo_subscribed)"
  define r where "r = default_ingest_result\<lparr> accepted := False, message := ''signature verification failed'', processingMs := 1 \<rparr>"
  have "packet_ok demo_service demo_packet" by (rule demo_packet_ok)
  then have run: "fst (Ingest strict_service 1 demo_packet g) = Inr r" for g
    unfolding Ingest_def packet_ok_def Let_def finish_simps strict_service_def r_def by (elim conjE) simp
  have event: "rejected_event demo_packet r = ''{\"type\":\"ingest.rejected\",\"deviceId\":\"sensor\",\"message\":\"signature verification failed\"}''"
    by (simp add: rejected_event_def demo_packet_def Let_def r_def JsonEscape_def escape_char_def)
  have small: "length (rejected_event demo_packet r) < 2 ^ 64" unfolding event by simp
  have "\<not> accepted r" by (simp add: r_def)
  have srv: "distinct (subscribers demo_subscribed)" "set (subscribers demo_subscribed) \<subseteq> openFds (osState demo_subscribed)"
      "telemetryWsClients demo_subscribed = [4]" "alertWsClients demo_subscribed = [5]" "delivered (osState demo_subscribed) 4 = []"
    by (simp_all add: demo_subscribed_def subscribers_def)
  from ingest_notifies [OF srv(1,2), of strict_service 1 demo_body] have
    "telemetryWsClients ?srv' = [4]" "notified (rejected_event demo_packet r) [5] (alertWsClients ?srv') (osState demo_subscribed) (osState ?srv')"
    using \<open>\<not> accepted r\<close> small by (simp_all only: demo_body_parsed run srv sum.case parse_telemetry_result.simps if_False simp_thms)
  moreover from this(2) have "delivered (osState ?srv') 4 = []" by (simp add: notified_def srv)
  ultimately show ?thesis by (simp only: Let_def event simp_thms)
qed

end
