(* ===== verification/Server_Loop.thy ===== *)
theory Server_Loop
  imports Server_Routes
begin

text \<open>
  The life of the server of \<^verbatim>\<open>src/api/http_server.cpp\<close>: the invariant of its descriptors over
  the accept loop, \<^verbatim>\<open>Stop\<close>, how the gateway's state evolves under it, and how it ends.
\<close>

section \<open>The descriptors of the server\<close>

definition listening_fds :: "('r, 'c) http_server \<Rightarrow> int set" where
  "listening_fds srv = (if 0 \<le> listenFd srv then {listenFd srv} else {})"

text \<open>
  The bookkeeping of descriptors: the listening ones, the two lists of subscribers and the ones in
  hand are disjoint, without repetition, nonnegative, and together exactly the open ones.
\<close>

definition fds_inv :: "int set \<Rightarrow> int list \<Rightarrow> int list \<Rightarrow> int set \<Rightarrow> int set \<Rightarrow> bool" where
  "fds_inv L T A B opened \<longleftrightarrow> distinct T \<and> distinct A \<and> set T \<inter> set A = {} \<and>
     L \<inter> (set T \<union> set A) = {} \<and> B \<inter> (L \<union> set T \<union> set A) = {} \<and>
     opened = L \<union> set T \<union> set A \<union> B \<and> (\<forall>fd \<in> opened. 0 \<le> fd)"

lemma fds_inv_sym: "fds_inv L T A B opened = fds_inv L A T B opened"
  by (auto simp: fds_inv_def)

lemma fds_inv_drop:
  "fds_inv L T A B opened \<Longrightarrow> distinct T' \<Longrightarrow> set T' \<subseteq> set T \<Longrightarrow> fds_inv L T' A B (opened - (set T - set T'))"
  unfolding fds_inv_def by blast

lemma fds_inv_subscribe: "fds_inv L T A {fd} opened \<Longrightarrow> fds_inv L (T @ [fd]) A {} opened"
  by (auto simp: fds_inv_def)

lemma fds_inv_close: "fds_inv L T A {fd} opened \<Longrightarrow> fds_inv L T A {} (opened - {fd})"
  by (auto simp: fds_inv_def)

lemma fds_inv_open: "fds_inv L T A {} opened \<Longrightarrow> 0 \<le> fd \<Longrightarrow> fd \<notin> opened \<Longrightarrow> fds_inv L T A {fd} (insert fd opened)"
  by (auto simp: fds_inv_def)

definition server_inv :: "int set \<Rightarrow> ('r, 'c) http_server \<Rightarrow> bool" where
  "server_inv busy srv \<longleftrightarrow>
     fds_inv (listening_fds srv) (telemetryWsClients srv) (alertWsClients srv) busy (openFds (osState srv)) \<and>
     strayCloses (osState srv) = 0"

lemma listening_fds_simps [simp]:
  "listening_fds (srv\<lparr>osState := os\<rparr>) = listening_fds srv"
  "listening_fds (srv\<lparr>telemetryWsClients := T\<rparr>) = listening_fds srv"
  "listening_fds (srv\<lparr>alertWsClients := A\<rparr>) = listening_fds srv"
  "listening_fds (srv\<lparr>gatewayState := g\<rparr>) = listening_fds srv"
  by (simp_all add: listening_fds_def)

lemma server_inv_os:
  "openFds os = openFds (osState srv) \<Longrightarrow> strayCloses os = strayCloses (osState srv) \<Longrightarrow>
    server_inv busy (srv\<lparr>osState := os\<rparr>) = server_inv busy srv"
  by (simp add: server_inv_def)

lemma server_inv_send [inv_intros]: "server_inv busy srv \<Longrightarrow> server_inv busy (send_response fd response srv)"
  by (simp add: server_inv_os send_response_def)

lemma server_inv_gateway [simp]: "server_inv busy (srv\<lparr>gatewayState := g\<rparr>) = server_inv busy srv"
  by (simp add: server_inv_def)

lemma distinct_subseq: "subseq xs ys \<Longrightarrow> distinct ys \<Longrightarrow> distinct xs"
  by (induction rule: list_emb.induct) (auto dest: subseq_set)

lemma broadcast_message_to:
  assumes "distinct clients" "set clients \<subseteq> openFds os" "BroadcastMessage payload clients os = (active, os')"
  shows "distinct active" "set active \<subseteq> set clients"
    "openFds os' = openFds os - (set clients - set active)" "strayCloses os' = strayCloses os"
proof -
  have B: "broadcast_to (BuildWebSocketFrame payload) clients active os os'"
    using assms by (intro broadcast_loop_to) (simp_all add: BroadcastMessage_def)
  then have "subseq active clients" by (simp add: broadcast_to_def)
  with assms(1) show "distinct active" "set active \<subseteq> set clients"
    by (simp_all add: subseq_set distinct_subseq)
  show "openFds os' = openFds os - (set clients - set active)" "strayCloses os' = strayCloses os"
    using B by (simp_all add: broadcast_to_def)
qed

lemma server_inv_broadcast [inv_intros]:
  assumes inv: "server_inv busy srv"
  shows "server_inv busy (BroadcastIngestEvent p r srv)"
proof (cases "accepted r")
  case True
  obtain active os' where run: "BroadcastMessage (ingested_event p r) (telemetryWsClients srv) (osState srv) = (active, os')"
    by fastforce
  have "distinct (telemetryWsClients srv)" "set (telemetryWsClients srv) \<subseteq> openFds (osState srv)"
    using inv by (auto simp: server_inv_def fds_inv_def)
  note B = broadcast_message_to [OF this run]
  with inv True run show ?thesis by (simp add: BroadcastIngestEvent_def server_inv_def fds_inv_drop)
next
  case False
  obtain active os' where run: "BroadcastMessage (rejected_event p r) (alertWsClients srv) (osState srv) = (active, os')"
    by fastforce
  have "distinct (alertWsClients srv)" "set (alertWsClients srv) \<subseteq> openFds (osState srv)"
    using inv by (auto simp: server_inv_def fds_inv_def)
  note B = broadcast_message_to [OF this run]
  with inv False run show ?thesis
    by (simp add: BroadcastIngestEvent_def server_inv_def fds_inv_sym [where T = "telemetryWsClients srv"] fds_inv_drop)
qed

lemma server_inv_Route [inv_intros]: "server_inv busy srv \<Longrightarrow> server_inv busy (snd (Route svc ms request srv))"
  by (auto simp: Route_def ingest_route_def Let_def intro!: inv_intros split: prod.splits sum.splits)

lemma server_inv_subscribe [inv_intros]:
  assumes "server_inv {fd} srv"
  shows "server_inv {} (srv\<lparr>telemetryWsClients := telemetryWsClients srv @ [fd]\<rparr>)"
    "server_inv {} (srv\<lparr>alertWsClients := alertWsClients srv @ [fd]\<rparr>)"
  using assms fds_inv_subscribe by (auto simp: server_inv_def fds_inv_sym [where T = "telemetryWsClients srv"])

lemma server_inv_upgrade:
  assumes "server_inv {fd} srv" "TryUpgradeWebSocket fd request path srv = (keep, srv')"
  shows "server_inv (if keep then {} else {fd}) srv'"
proof -
  obtain sent os' where run: "SendAll fd (switching_protocols (Trim (GetHeaderValue (httpHeaders request) ''Sec-WebSocket-Key'')))
      (osState srv) = (sent, os')" by fastforce
  then have "openFds os' = openFds (osState srv)" "strayCloses os' = strayCloses (osState srv)"
    using SendAll_open [of fd _ "osState srv"] by (metis snd_conv)+
  then have "server_inv {fd} (srv\<lparr>osState := os'\<rparr>)" using assms(1) by (simp add: server_inv_os)
  from server_inv_subscribe [OF this] this server_inv_send [OF assms(1)] assms show ?thesis
    by (auto simp: TryUpgradeWebSocket_def Let_def run split: if_splits)
qed

lemma server_inv_HandleClient:
  assumes "server_inv {fd} srv" "HandleClient svc ms blocks fd srv = (res, srv')"
  shows "server_inv (if res = Inr True then {} else {fd}) srv'"
proof (cases "\<exists>request. ReadHttpRequest blocks \<noteq> [] \<and> ParseHttpRequest (ReadHttpRequest blocks) = Some request")
  case False
  with assms show ?thesis
    by (auto simp: HandleClient_def Let_def intro!: inv_intros split: if_splits option.splits)
next
  case True
  then obtain request where raw: "ReadHttpRequest blocks \<noteq> []" "ParseHttpRequest (ReadHttpRequest blocks) = Some request"
    by blast
  show ?thesis
  proof (cases "is_ws_path (StripQuery (httpPath request))")
    case True
    obtain keep srv1 where up: "TryUpgradeWebSocket fd request (StripQuery (httpPath request)) srv = (keep, srv1)" by fastforce
    with server_inv_upgrade [OF assms(1) up] assms(2) raw True show ?thesis by (cases keep) (auto simp: HandleClient_def Let_def)
  next
    case False
    obtain x srv1 where run: "Route svc ms request srv = (x, srv1)" by fastforce
    with server_inv_Route [OF assms(1), of svc ms request] have "server_inv {fd} srv1" by simp
    with assms(2) raw False run show ?thesis
      by (cases x) (auto simp: HandleClient_def Let_def intro!: inv_intros)
  qed
qed

section \<open>The life of the server\<close>

lemma running_unchanged:
  "running (send_response fd r srv) = running srv" "listenFd (send_response fd r srv) = listenFd srv"
  by (simp_all add: send_response_def)

lemma server_inv_accept:
  assumes "server_inv {} srv" "0 \<le> fd" "fd \<notin> openFds (osState srv)"
  shows "server_inv {fd} (srv\<lparr>osState := open_fd fd answers (osState srv)\<rparr>)"
  using assms by (simp add: server_inv_def open_fd_def fds_inv_open)

lemma server_inv_close:
  assumes "server_inv {fd} srv"
  shows "server_inv {} (srv\<lparr>osState := close_fd fd (osState srv)\<rparr>)"
proof -
  have "fd \<in> openFds (osState srv)" using assms by (auto simp: server_inv_def fds_inv_def)
  then show ?thesis using assms by (simp add: server_inv_def close_fd_def fds_inv_close)
qed

lemma fold_close_fd:
  assumes "distinct fds" "set fds \<subseteq> openFds os"
  shows "openFds (fold close_fd fds os) = openFds os - set fds \<and> strayCloses (fold close_fd fds os) = strayCloses os"
  using assms
proof (induction fds arbitrary: os)
  case (Cons fd fds)
  then have "set fds \<subseteq> openFds (close_fd fd os)" by (auto simp: close_fd_def)
  with Cons show ?case by (auto simp: close_fd_def)
qed simp

lemma Stop_fields:
  "osState (Stop srv) = fold close_fd (alertWsClients srv) (fold close_fd (telemetryWsClients srv)
     (if 0 \<le> listenFd srv then close_fd (listenFd srv) (osState srv) else osState srv))"
  "telemetryWsClients (Stop srv) = []" "alertWsClients (Stop srv) = []" "\<not> running (Stop srv)"
  "listenFd (Stop srv) = (if 0 \<le> listenFd srv then -1 else listenFd srv)" "gatewayState (Stop srv) = gatewayState srv"
  by (cases srv; simp add: Stop_def stop_listening_def Let_def)+

lemma Stop_closes:
  assumes "server_inv busy srv"
  shows "openFds (osState (Stop srv)) = busy" "strayCloses (osState (Stop srv)) = 0"
    "telemetryWsClients (Stop srv) = []" "alertWsClients (Stop srv) = []" "\<not> running (Stop srv)" "\<not> 0 \<le> listenFd (Stop srv)"
proof -
  define os where "os = (if 0 \<le> listenFd srv then close_fd (listenFd srv) (osState srv) else osState srv)"
  let ?os1 = "fold close_fd (telemetryWsClients srv) os"
  have os: "openFds os = set (telemetryWsClients srv) \<union> set (alertWsClients srv) \<union> busy" "strayCloses os = 0"
  proof -
    have "openFds os = openFds (osState srv) - listening_fds srv"
      by (cases "0 \<le> listenFd srv") (simp_all add: os_def listening_fds_def close_fd_def)
    then show "openFds os = set (telemetryWsClients srv) \<union> set (alertWsClients srv) \<union> busy"
      using assms unfolding server_inv_def fds_inv_def by blast
    show "strayCloses os = 0"
      using assms by (cases "0 \<le> listenFd srv") (simp_all add: os_def server_inv_def fds_inv_def listening_fds_def close_fd_def)
  qed
  have lists: "distinct (telemetryWsClients srv)" "distinct (alertWsClients srv)"
      "set (telemetryWsClients srv) \<inter> set (alertWsClients srv) = {}"
      "busy \<inter> (set (telemetryWsClients srv) \<union> set (alertWsClients srv)) = {}"
    using assms unfolding server_inv_def fds_inv_def by blast+
  have "set (telemetryWsClients srv) \<subseteq> openFds os" using os(1) by blast
  note one = fold_close_fd [OF lists(1) this]
  have os1: "openFds ?os1 = set (alertWsClients srv) \<union> busy" using one os(1) lists(3,4) by blast
  then have "set (alertWsClients srv) \<subseteq> openFds ?os1" by blast
  note two = fold_close_fd [OF lists(2) this]
  show "openFds (osState (Stop srv)) = busy" using two os1 lists(4) unfolding Stop_fields os_def [symmetric] by blast
  show "strayCloses (osState (Stop srv)) = 0" using two one os(2) unfolding Stop_fields os_def [symmetric] by simp
qed (simp_all add: Stop_fields)

lemma server_inv_Stop:
  assumes "server_inv busy srv"
  shows "server_inv busy (Stop srv)"
proof -
  note S = Stop_closes [OF assms]
  have "listening_fds (Stop srv) = {}" using S(6) by (simp only: listening_fds_def if_False)
  moreover have "fds_inv {} [] [] busy busy" using assms by (auto simp: server_inv_def fds_inv_def)
  ultimately show ?thesis using S by (simp add: server_inv_def)
qed

lemma server_inv_reading: "server_inv busy srv \<Longrightarrow> server_inv busy (while_reading signal srv)"
  by (simp add: while_reading_def server_inv_Stop)

lemma server_inv_running [simp]: "server_inv busy (srv\<lparr>running := b\<rparr>) = server_inv busy srv"
  by (simp add: server_inv_def listening_fds_def)

text \<open>The start, with a signal before any of its calls.\<close>

lemma Stop_new_server: "Stop (new_server g) = new_server g"
  by (simp add: Stop_def stop_listening_def new_server_def)

lemma server_inv_opened:
  assumes "0 \<le> fd" and "srv = (new_server g)\<lparr>listenFd := fd, osState := open_fd fd [] (osState (new_server g))\<rparr>"
  shows "server_inv {} srv"
  using assms(1) unfolding assms(2) server_inv_def
  by (simp add: listening_fds_def new_server_def open_fd_def fds_inv_def)

lemma start_listening_cases:
  assumes "start_listening signal k (new_server g) = (Inr (), srv)"
  defines "opened \<equiv> (new_server g)\<lparr>listenFd := socketAnswer k, osState := open_fd (socketAnswer k) [] (osState (new_server g))\<rparr>"
  shows "0 \<le> socketAnswer k \<and> (signal = None \<or> signal = Some BeforeSocket \<or> signal = Some BeforeLoop)
    \<and> srv = (if signal = Some BeforeLoop then Stop opened else opened)\<lparr>running := True\<rparr>"
proof -
  have "listenFd (Stop opened) < 0" by (simp add: Stop_fields)
  with assms show ?thesis
    by (cases signal; cases "the signal")
      (auto simp: start_listening_def Let_def Stop_new_server split: if_splits)
qed

lemma server_inv_started:
  assumes "start_listening signal k (new_server g) = (Inr (), srv)"
  shows "server_inv {} srv"
proof -
  let ?opened = "(new_server g)\<lparr>listenFd := socketAnswer k, osState := open_fd (socketAnswer k) [] (osState (new_server g))\<rparr>"
  from start_listening_cases [OF assms] have "server_inv {} ?opened" by (intro server_inv_opened) simp_all
  with start_listening_cases [OF assms] server_inv_Stop [OF this] show ?thesis by (cases "signal = Some BeforeLoop") simp_all
qed

definition client_in_hand :: "phase \<Rightarrow> int set \<Rightarrow> bool" where
  "client_in_hand ph busy \<longleftrightarrow> (case ph of Thrown _ \<Rightarrow> \<exists>fd. busy = {fd} | _ \<Rightarrow> busy = {})"

definition loop_inv :: "phase \<times> ('r, 'c) http_server \<Rightarrow> bool" where
  "loop_inv p \<longleftrightarrow> fst p = Locked \<or> (\<exists>busy. client_in_hand (fst p) busy \<and> server_inv busy (snd p))"

lemma server_step_inv:
  assumes "server_step svc p q" "loop_inv p"
  shows "loop_inv q"
  using assms
proof (induction rule: server_step.induct)
  case (closed srv fd ms blocks signal answers srv')
  then have "server_inv {fd} srv'"
    using server_inv_HandleClient [OF server_inv_reading [OF server_inv_accept] closed(4)] by (simp add: client_in_hand_def loop_inv_def)
  from server_inv_close [OF this] show ?case by (simp add: client_in_hand_def loop_inv_def)
next
  case (kept srv fd ms blocks signal answers srv')
  then show ?case
    using server_inv_HandleClient [OF server_inv_reading [OF server_inv_accept] kept(4)] by (simp add: client_in_hand_def loop_inv_def)
next
  case (crashed srv fd ms blocks signal answers e srv')
  then show ?case
    using server_inv_HandleClient [OF server_inv_reading [OF server_inv_accept] crashed(4)] by (auto simp: client_in_hand_def loop_inv_def)
next
  case (signalled ph srv)
  then show ?case using server_inv_Stop by (auto simp: client_in_hand_def loop_inv_def)
qed (simp_all add: client_in_hand_def loop_inv_def)

lemma reachable_loop: "reachable svc g0 p \<Longrightarrow> loop_inv p"
proof (induction rule: reachable.induct)
  case (started signal k srv)
  then show ?case by (simp add: client_in_hand_def loop_inv_def server_inv_started)
next
  case (step p q)
  then show ?case using server_step_inv by blast
qed

lemma reachable_inv:
  "reachable svc g0 (ph, srv) \<Longrightarrow> ph \<noteq> Locked \<Longrightarrow> \<exists>busy. client_in_hand ph busy \<and> server_inv busy srv"
  using reachable_loop by (fastforce simp: loop_inv_def)




lemma demo_started_reachable: "reachable demo_service (new_gateway mem_empty mock_counter) (Accepting, demo_started)"
  by (rule started [of None "\<lparr> socketAnswer = 3, bindAnswer = 0, listenAnswer = 0 \<rparr>"])
    (simp add: demo_started_def start_listening_def Let_def)



section \<open>The gateway under the server\<close>

lemma gateway_of_send [simp]: "gatewayState (send_response fd r srv) = gatewayState srv"
  by (simp add: send_response_def)

lemma TryUpgradeWebSocket_gateway:
  "TryUpgradeWebSocket fd request path srv = (keep, srv') \<Longrightarrow> gatewayState srv' = gatewayState srv"
  by (auto simp: TryUpgradeWebSocket_def Let_def split: if_splits prod.splits)

lemma Route_gateway:
  assumes "Route svc ms request srv = (res, srv')"
  shows "gatewayState srv' = gatewayState srv \<or> (\<exists>p. gatewayState srv' = snd (Ingest svc ms p (gatewayState srv)))"
proof (cases "httpMethod request = ''POST'' \<and> StripQuery (httpPath request) = ''/api/v1/ingest''")
  case True
  then have "ingest_route svc ms (httpBody request) srv = (res, srv')" using assms by (simp add: Route_def)
  then show ?thesis
    by (auto simp: ingest_route_def Let_def split: if_splits prod.splits sum.splits)
      (metis gateway_of_broadcast http_server.select_convs(6) http_server.surjective http_server.update_convs(6) snd_conv)+
next
  case False
  then have "srv' = srv" using assms by (auto simp: Route_def Let_def split: if_splits)
  then show ?thesis by simp
qed

lemma HandleClient_gateway:
  assumes "HandleClient svc ms blocks fd srv = (res, srv')"
  shows "gatewayState srv' = gatewayState srv \<or> (\<exists>p. gatewayState srv' = snd (Ingest svc ms p (gatewayState srv)))"
proof (cases "ReadHttpRequest blocks = [] \<or> ParseHttpRequest (ReadHttpRequest blocks) = None")
  case True
  with assms show ?thesis by (auto simp: HandleClient_def Let_def split: if_splits)
next
  case False
  then obtain request where raw: "ReadHttpRequest blocks \<noteq> []" "ParseHttpRequest (ReadHttpRequest blocks) = Some request"
    by auto
  show ?thesis
  proof (cases "is_ws_path (StripQuery (httpPath request))")
    case True
    obtain keep srv1 where "TryUpgradeWebSocket fd request (StripQuery (httpPath request)) srv = (keep, srv1)" by fastforce
    with TryUpgradeWebSocket_gateway [OF this] assms raw True show ?thesis by (auto simp: HandleClient_def Let_def)
  next
    case False
    obtain x srv1 where run: "Route svc ms request srv = (x, srv1)" by fastforce
    have "gatewayState srv' = gatewayState srv1"
      using assms raw False run by (cases x) (auto simp: HandleClient_def Let_def)
    with Route_gateway [OF run] show ?thesis by simp
  qed
qed

lemma stop_listening_fields:
  "\<not> running (stop_listening srv)" "\<not> 0 \<le> listenFd (stop_listening srv)" "gatewayState (stop_listening srv) = gatewayState srv"
  "telemetryWsClients (stop_listening srv) = telemetryWsClients srv" "alertWsClients (stop_listening srv) = alertWsClients srv"
  "osState (stop_listening srv) = (if 0 \<le> listenFd srv then close_fd (listenFd srv) (osState srv) else osState srv)"
  by (cases srv; simp add: stop_listening_def Let_def)+

lemma cut_broadcast_fields [simp]:
  "gatewayState (cut_broadcast n m p r srv) = gatewayState srv" "listenFd (cut_broadcast n m p r srv) = listenFd srv"
  "telemetryWsClients (cut_broadcast n m p r srv) = telemetryWsClients srv" "alertWsClients (cut_broadcast n m p r srv) = alertWsClients srv"
  by (simp_all add: cut_broadcast_def)

lemma caught_broadcasting_ingest:
  assumes "caught_broadcasting svc ms blocks n m srv = Some srv'"
  obtains p r g where "Ingest svc ms p (gatewayState srv) = (Inr r, g)"
    "srv' = stop_listening (cut_broadcast n m p r (srv\<lparr>gatewayState := g\<rparr>))"
  using assms by (auto simp: caught_broadcasting_def Let_def split: option.splits if_splits prod.splits sum.splits)

text \<open>What every ingest keeps, the steps of the server keep.\<close>

lemma server_step_gateway:
  assumes "server_step svc p q" and "P (gatewayState (snd p))" and "\<And>ms p g. P g \<Longrightarrow> P (snd (Ingest svc ms p g))"
  shows "P (gatewayState (snd q))"
proof -
  have handled: "P (gatewayState srv')"
    if "HandleClient svc ms blocks fd (while_reading signal (srv\<lparr>osState := os\<rparr>)) = (res, srv')" "P (gatewayState srv)"
    for ms blocks fd signal srv os res srv'
  proof -
    have "gatewayState (while_reading signal (srv\<lparr>osState := os\<rparr>)) = gatewayState srv"
      by (simp add: while_reading_def Stop_fields)
    then show ?thesis using HandleClient_gateway [OF that(1)] assms(3) that(2) by auto
  qed
  have caught: "P (gatewayState srv')"
    if run: "caught_broadcasting svc ms blocks n m (while_reading signal (srv\<lparr>osState := os\<rparr>)) = Some srv'" and P: "P (gatewayState srv)"
    for ms blocks n m signal srv os srv'
  proof -
    obtain p r g where one: "Ingest svc ms p (gatewayState srv) = (Inr r, g)" "gatewayState srv' = g"
      using run by (cases signal) (auto simp: while_reading_def Stop_fields stop_listening_fields elim!: caught_broadcasting_ingest)
    with assms(3) [OF P, of ms p] show ?thesis by simp
  qed
  from assms(1,2) show ?thesis by (induction rule: server_step.induct) (auto simp: Stop_fields intro: handled caught)
qed

lemma later_gateway:
  assumes "(server_step svc)\<^sup>*\<^sup>* p q" and "P (gatewayState (snd p))" and "\<And>ms p g. P g \<Longrightarrow> P (snd (Ingest svc ms p g))"
  shows "P (gatewayState (snd q))"
  using assms(1)
proof (induction rule: rtranclp_induct)
  case (step q r)
  from server_step_gateway [OF step(2), of P, OF step(3) assms(3)] show ?case .
qed (rule assms(2))

lemma reachable_gateway:
  assumes "reachable svc g0 q" and "P g0" and "\<And>ms p g. P g \<Longrightarrow> P (snd (Ingest svc ms p g))"
  shows "P (gatewayState (snd q))"
  using assms(1)
proof (induction rule: reachable.induct)
  case (started signal k srv)
  from start_listening_cases [OF started] have "gatewayState srv = g0" by (auto simp: Stop_fields new_server_def)
  with assms(2) show ?case by simp
next
  case (step p q)
  from server_step_gateway [OF step(2), of P, OF step(3) assms(3)] show ?case .
qed

section \<open>A clean end\<close>

lemma send_response_fields [simp]: "running (send_response fd r srv) = running srv"
  by (simp add: send_response_def)

lemma BroadcastIngestEvent_running [simp]: "running (BroadcastIngestEvent p r srv) = running srv"
  by (simp add: BroadcastIngestEvent_def split: prod.splits)

lemma Route_running: "running (snd (Route svc ms request srv)) = running srv"
  by (simp add: Route_def ingest_route_def Let_def split: prod.splits sum.splits)

lemma broadcast_loop_shrinks: "broadcast_loop frame fds os = (active, os') \<Longrightarrow> length active \<le> length fds"
  by (induction fds arbitrary: os active) (auto split: if_splits prod.splits intro: le_SucI)

lemma broadcast_shrinks [simp]: "length (subscribers (BroadcastIngestEvent p r srv)) \<le> length (subscribers srv)"
  by (auto simp: BroadcastIngestEvent_def BroadcastMessage_def subscribers_def dest: broadcast_loop_shrinks split: prod.splits)

lemma broadcast_listen [simp]: "listenFd (BroadcastIngestEvent p r srv) = listenFd srv"
  by (simp add: BroadcastIngestEvent_def split: prod.splits)

text \<open>No request starts or stops the server, and it brings at most one subscriber.\<close>

definition one_client_more :: "('r, 'c) http_server \<Rightarrow> ('r, 'c) http_server \<Rightarrow> bool" where
  "one_client_more srv srv' \<longleftrightarrow> running srv' = running srv \<and> listenFd srv' = listenFd srv \<and>
     length (subscribers srv') \<le> Suc (length (subscribers srv))"

lemma one_client_more_Route: "one_client_more srv (snd (Route svc ms request srv))"
proof -
  have "length (subscribers (BroadcastIngestEvent p r (srv\<lparr>gatewayState := g\<rparr>))) \<le> Suc (length (subscribers srv))" for p r g
    by (metis broadcast_shrinks le_SucI subscribers_simps(2))
  then show ?thesis
    by (simp add: Route_def ingest_route_def one_client_more_def Let_def split: prod.splits sum.splits)
qed

lemma one_client_more_upgrade: "one_client_more srv (snd (TryUpgradeWebSocket fd request path srv))"
  by (simp add: TryUpgradeWebSocket_def one_client_more_def subscribers_def send_response_def Let_def split: prod.splits)

lemma one_client_more_send: "one_client_more srv srv' \<Longrightarrow> one_client_more srv (send_response fd r srv')"
  by (simp add: one_client_more_def) (simp add: send_response_def)

lemma one_client_more_HandleClient:
  assumes "HandleClient svc ms blocks fd srv = (res, srv')"
  shows "one_client_more srv srv'"
proof -
  have refl: "one_client_more srv srv" by (simp add: one_client_more_def)
  have "one_client_more srv (snd (HandleClient svc ms blocks fd srv))"
    using refl one_client_more_send one_client_more_upgrade [of srv] one_client_more_Route [of srv svc ms]
    by (auto simp: HandleClient_def Let_def split: prod.splits sum.splits option.splits) (metis snd_conv)+
  with assms show ?thesis by simp
qed

text \<open>After \<^verbatim>\<open>Stop\<close>: nothing listens, and only the client being read then can have subscribed.\<close>

definition stopped :: "('r, 'c) http_server \<Rightarrow> bool" where
  "stopped srv \<longleftrightarrow> \<not> running srv \<and> \<not> 0 \<le> listenFd srv \<and> length (subscribers srv) \<le> 1"

lemma stopped_Stop: "stopped (Stop srv)"
  by (simp add: stopped_def Stop_fields subscribers_def)

lemma stopped_after_read:
  assumes "one_client_more (while_reading signal (srv\<lparr>osState := os\<rparr>)) srv'" "running srv"
  shows "running srv' \<or> stopped srv'"
  using assms by (cases signal) (auto simp: one_client_more_def while_reading_def stopped_def Stop_fields subscribers_def split: if_splits)

lemma stopped_os [simp]: "stopped (srv\<lparr>osState := os\<rparr>) = stopped srv"
  by (simp add: stopped_def)

lemma reachable_stopped:
  assumes "reachable svc g0 q"
  shows "(\<exists>e. fst q = Thrown e) \<or> fst q = Locked \<or> running (snd q) \<and> fst q = Accepting \<or> stopped (snd q)"
  using assms
proof (induction rule: reachable.induct)
  case (started signal k srv)
  from start_listening_cases [OF started] show ?case by auto
next
  case (step p q)
  from step(2,3) show ?case
  proof (induction rule: server_step.induct)
    case (closed srv fd ms blocks signal answers srv')
    then show ?case using stopped_after_read [OF one_client_more_HandleClient [OF closed(4)]] by simp
  next
    case (kept srv fd ms blocks signal answers srv')
    then show ?case using stopped_after_read [OF one_client_more_HandleClient [OF kept(4)]] by simp
  qed (auto simp: stopped_Stop)
qed

lemma returned_stopped:
  assumes "reachable svc g0 (Returned, srv)"
  shows "\<not> running srv \<and> \<not> 0 \<le> listenFd srv \<and> length (subscribers srv) \<le> 1
    \<and> openFds (osState srv) = set (subscribers srv) \<and> strayCloses (osState srv) = 0"
proof -
  have "stopped srv" using reachable_stopped [OF assms] by simp
  moreover from reachable_inv [OF assms] have inv: "server_inv {} srv" by (simp add: client_in_hand_def)
  moreover from calculation have "listening_fds srv = {}" by (simp only: stopped_def listening_fds_def if_False)
  ultimately show ?thesis by (simp add: stopped_def server_inv_def fds_inv_def subscribers_def)
qed

text \<open>
  C26: a subscriber after \<^verbatim>\<open>Stop\<close>. When the signal comes while the request of a WebSocket
  handshake is being read, the handler goes on after \<^verbatim>\<open>Stop\<close> and subscribes the client:
  \<^verbatim>\<open>Start\<close> returns with that descriptor still open, in a list that nothing will close.
\<close>
theorem handshake_after_stop:
  assumes "ReadHttpRequest blocks = http_message ((''GET'' @ '' '' @ target @ '' '' @ ''HTTP/1.1'') # map header_line hs) body"
    and "http_word target" and "is_ws_path (StripQuery target)" and "hs \<noteq> []" and "\<forall>h \<in> set hs. header_ok h"
    and "upgrade_headers hs" and "0 \<le> fd"
  shows "\<exists>ms answers srv srv'. reachable svc g (Accepting, srv) \<and> running srv \<and> fd \<notin> openFds (osState srv)
    \<and> HandleClient svc ms blocks fd (Stop (srv\<lparr>osState := open_fd fd answers (osState srv)\<rparr>)) = (Inr True, srv')
    \<and> reachable svc g (Returned, srv') \<and> openFds (osState srv') = {fd} \<and> subscribers srv' = [fd]"
proof -
  let ?k = "\<lparr> socketAnswer = fd + 1, bindAnswer = 0, listenAnswer = 0 \<rparr>"
  let ?p = "switching_protocols (header_value hs ''Sec-WebSocket-Key'')"
  obtain srv where start: "start_listening None ?k (new_server g) = (Inr (), srv)" "running srv" "openFds (osState srv) = {fd + 1}"
      "telemetryWsClients srv = []" "alertWsClients srv = []" "listenFd srv = fd + 1"
    using assms(7) by (simp add: start_listening_def Let_def new_server_def open_fd_def)
  let ?opened = "srv\<lparr>osState := open_fd fd [Sent (length ?p)] (osState srv)\<rparr>"
  have "sendAnswers (osState (Stop ?opened)) = [Sent (length ?p)]"
    using start(4,5) by (simp add: Stop_fields open_fd_def close_fd_def)
  moreover have "?p \<noteq> []" by (simp add: switching_protocols_def)
  ultimately obtain os' where sent: "SendAll fd ?p (osState (Stop ?opened)) = (True, os')"
      "openFds os' = openFds (osState (Stop ?opened))"
    by (rule SendAll_taken)
  let ?srv' = "subscribe (StripQuery target) fd ((Stop ?opened)\<lparr>osState := os'\<rparr>)"
  have run: "HandleClient svc 0 blocks fd (Stop ?opened) = (Inr True, ?srv')"
    using HandleClient_websocket [OF assms(1-5), of svc 0 fd "Stop ?opened"] assms(6) sent(1) by simp
  have "server_inv {fd} ?opened"
    by (rule server_inv_accept [OF server_inv_started [OF start(1)]]) (use assms(7) start(3) in simp_all)
  from Stop_closes [OF this] have closed: "openFds os' = {fd}" "telemetryWsClients (Stop ?opened) = []"
      "alertWsClients (Stop ?opened) = []" "\<not> running (Stop ?opened)"
    using sent(2) by simp_all
  then have fields: "openFds (osState ?srv') = {fd}" "subscribers ?srv' = [fd]" "\<not> running ?srv'"
    by (auto simp: subscribe_def subscribers_def)
  have "reachable svc g (Accepting, ?srv')"
    by (rule step [OF started [OF start(1)] kept [where signal = True]])
      (use start(2,3,6) assms(7) run in \<open>simp_all add: while_reading_def\<close>)
  from step [OF this leave] fields(3) have "reachable svc g (Returned, ?srv')" by blast
  moreover have "fd \<notin> openFds (osState srv)" using start(3) by simp
  ultimately show ?thesis using started [OF start(1)] start(2) run fields by blast
qed

theorem handshake_after_stop_witness:
  "\<exists>srv. reachable demo_service (new_gateway mem_empty mock_counter) (Returned, srv) \<and> openFds (osState srv) = {4}"
proof -
  let ?block = "http_message ((''GET'' @ '' '' @ ''/ws/telemetry'' @ '' '' @ ''HTTP/1.1'') # map header_line demo_headers) []"
  have "ReadHttpRequest [?block] = ?block" by (rule ReadHttpRequest_one) (simp add: http_message_def)
  from handshake_after_stop [OF this demo_handshake(1,2,6,4,5), of 4 demo_service "new_gateway mem_empty mock_counter"]
  show ?thesis by auto
qed

end
