(* ===== verification/Main_Program.thy ===== *)
theory Main_Program
  imports Sqlite_Gateway Server_Loop
begin

text \<open>
  \<^verbatim>\<open>src/main.cpp\<close>: the configuration from the environment, the composition of SQLite
  repository, verifier, chain client, ingest service and server, and how the process ends. The
  process around the program is a record: the environment variables, the engine, the directories
  of keys, the builds with and without OpenSSL, and what surrounds the chain client.
\<close>

section \<open>Configuration\<close>

type_synonym environment = "string \<rightharpoonup> string"

definition env_or :: "environment \<Rightarrow> string \<Rightarrow> string \<Rightarrow> string" where
  "env_or env name d = (case env name of Some v \<Rightarrow> v | None \<Rightarrow> d)"

definition sqlitePath :: "environment \<Rightarrow> string" where
  "sqlitePath env = env_or env ''AGRI_SQLITE_PATH'' ''backend-cpp/data/agri_gateway.db''"

definition keyDir :: "environment \<Rightarrow> string" where
  "keyDir env = env_or env ''AGRI_PUBLIC_KEYS_DIR'' ''backend-cpp/keys/public''"

definition chainMode :: "environment \<Rightarrow> string" where
  "chainMode env = env_or env ''AGRI_CHAIN_MODE'' ''mock''"

text \<open>
  \<^verbatim>\<open>static_cast<std::uint32_t>(std::stoul(v))\<close>; \<^verbatim>\<open>unsigned long\<close> has 64 bits, and both
  errors are exceptions whose text is the name of the function.
\<close>

definition stoul_u32 :: "string \<Rightarrow> exn + u32" where
  "stoul_u32 v = (case stoull v 10 of Inl _ \<Rightarrow> Inl (StdException ''stoul'') | Inr n \<Rightarrow> Inr (ucast n))"

definition env_u32 :: "environment \<Rightarrow> string \<Rightarrow> u32 \<Rightarrow> exn + u32" where
  "env_u32 env name d = (case env name of None \<Rightarrow> Inr d | Some v \<Rightarrow> stoul_u32 v)"

definition ethereum_env_config :: "environment \<Rightarrow> exn + ethereum_config" where
  "ethereum_env_config env =
     (let config = default_config\<lparr>
            rpcUrl := env_or env ''AGRI_ETH_RPC_URL'' (rpcUrl default_config),
            fromAddress := env_or env ''AGRI_ETH_FROM'' (fromAddress default_config),
            toAddress := env_or env ''AGRI_ETH_TO'' (toAddress default_config) \<rparr>
      in case env_u32 env ''AGRI_ETH_POLL_MS'' (pollIntervalMs default_config) of
           Inl e \<Rightarrow> Inl e
         | Inr pollMs \<Rightarrow>
             (case env_u32 env ''AGRI_ETH_MAX_WAIT_MS'' (maxWaitMs default_config) of
                Inl e \<Rightarrow> Inl e
              | Inr waitMs \<Rightarrow> Inr (config\<lparr> pollIntervalMs := pollMs, maxWaitMs := waitMs \<rparr>)))"

datatype chain_choice = EthereumChain ethereum_config | MockChain

definition choose_chain :: "environment \<Rightarrow> exn + chain_choice" where
  "choose_chain env =
     (if chainMode env = ''ethereum'' then
        (case ethereum_env_config env of Inl e \<Rightarrow> Inl e | Inr config \<Rightarrow> Inr (EthereumChain config))
      else Inr MockChain)"

section \<open>Composition\<close>

text \<open>
  One client type for both choices: its state pairs what surrounds the coming Ethereum
  submissions with the counter of the mock chain.
\<close>

type_synonym chain_state = "(nat \<Rightarrow> eth_env) \<times> u64"

record 'k host =
  hostEnv :: environment
  hostKeys :: "string \<Rightarrow> key_directory"
  hostVerify :: "'k verify_build"
  hostHash :: hash_build
  hostNow :: int
  hostRpc :: "nat \<Rightarrow> eth_env"

definition chain_client :: "hash_build \<Rightarrow> int \<Rightarrow> chain_choice \<Rightarrow> chain_state blockchain_client" where
  "chain_client h now choice = \<lparr> SubmitHash = (\<lambda>hash device ts (envs, counter).
     case choice of
       EthereumChain config \<Rightarrow>
         (let (result, envs) = SubmitHash (ethereum_client config) hash device ts envs in (result, (envs, counter)))
     | MockChain \<Rightarrow>
         (let (result, counter) = SubmitHash (mock_client h now) hash device ts counter in (result, (envs, counter)))) \<rparr>"

definition public_keys :: "'k host \<Rightarrow> public_key_map" where
  "public_keys host = LoadPublicKeysFromDirectory (hostKeys host (keyDir (hostEnv host)))"

definition program_service :: "'d sqlite \<Rightarrow> 'k host \<Rightarrow> chain_choice \<Rightarrow> ('d, chain_state) ingest_service" where
  "program_service sq host choice =
     sqlite_service sq (hostVerify host) (public_keys host) (chain_client (hostHash host) (hostNow host) choice) (hostHash host)"

definition kPort :: nat where "kPort = 8080"

definition banner :: "'k host \<Rightarrow> nat \<Rightarrow> string list" where
  "banner host loadedKeyCount =
     [''agri_gateway listening on 0.0.0.0:'' @ size_to_string kPort,
      ''sqlite database: '' @ sqlitePath (hostEnv host),
      ''public key directory: '' @ keyDir (hostEnv host),
      ''loaded public keys: '' @ size_to_string loadedKeyCount,
      ''chain mode: '' @ chainMode (hostEnv host),
      ''routes: /health, /api/v1/ingest, /api/v1/metrics/overview, /ws/telemetry, /ws/alerts'']"

text \<open>Everything before \<^verbatim>\<open>server.Start()\<close>: the service, the server, the lines printed.\<close>

definition compose :: "'d sqlite \<Rightarrow> 'k host \<Rightarrow>
    exn + ('d, chain_state) ingest_service \<times> ('d, chain_state) http_server \<times> string list" where
  "compose sq host =
     (case open_repository sq (sqlitePath (hostEnv host)) of
        Inl e \<Rightarrow> Inl e
      | Inr db \<Rightarrow>
          (case choose_chain (hostEnv host) of
             Inl e \<Rightarrow> Inl e
           | Inr choice \<Rightarrow>
               Inr (program_service sq host choice,
                    new_server (new_gateway db (hostRpc host, mock_counter)),
                    banner host (card (dom (public_keys host))))))"

section \<open>The end of the process\<close>

text \<open>An exit code, or an exception that nothing catches.\<close>

datatype process_end = Exit int | Uncaught exn

definition end_of_start :: "exn + unit \<Rightarrow> process_end" where
  "end_of_start r =
     (case r of
        Inr _ \<Rightarrow> Exit 0
      | Inl (StdException what) \<Rightarrow> Exit 1
      | Inl OtherException \<Rightarrow> Uncaught OtherException)"

definition HandleSignal :: "('r, 'c) http_server option \<Rightarrow> ('r, 'c) http_server option" where
  "HandleSignal gServer = (case gServer of None \<Rightarrow> None | Some srv \<Rightarrow> Some (Stop srv))"

inductive program_end :: "'d sqlite \<Rightarrow> 'k host \<Rightarrow> process_end \<Rightarrow> bool" for sq host where
  not_composed: "compose sq host = Inl e \<Longrightarrow> program_end sq host (Uncaught e)"
| not_listening: "\<lbrakk> compose sq host = Inr (svc, srv, out); start_listening signal k srv = (Inl e, srv') \<rbrakk> \<Longrightarrow>
    program_end sq host (end_of_start (Inl e))"
| returned: "\<lbrakk> compose sq host = Inr (svc, new_server g, out); reachable svc g (Returned, srv) \<rbrakk> \<Longrightarrow>
    program_end sq host (end_of_start (Inr ()))"
| thrown: "\<lbrakk> compose sq host = Inr (svc, new_server g, out); reachable svc g (Thrown e, srv) \<rbrakk> \<Longrightarrow>
    program_end sq host (end_of_start (Inl e))"

inductive_cases program_end_elim: "program_end sq host r"

section \<open>The table over the life of the program\<close>

text \<open>The records that some accepted or orphaned ingest of a checked packet has added.\<close>

definition checked_record :: "('r, 'c) ingest_service \<Rightarrow> telemetry_record \<Rightarrow> bool" where
  "checked_record svc r \<longleftrightarrow> (\<exists>p. packet_ok svc p \<and> packet r = stored_packet p)"

lemma ingest_spec_appends:
  "ingest_spec svc stored_packet stored_receipt p c rs res rs' \<Longrightarrow> \<exists>new. rs' = rs @ new \<and> (\<forall>r \<in> set new. checked_record svc r)"
  by (induction rule: ingest_spec.induct) (auto simp: checked_record_def)

text \<open>
  C1: the table only grows, and only by checked packets. Over SQLite, in every state that the
  started server can reach, with any requests, failures of the engine, answers of the chain and of
  the kernel, and after an uncaught exception or \<^verbatim>\<open>Stop\<close> as well, the records are those
  the database held at the start followed by records of packets whose required fields were there,
  whose hash was the SHA-256 of device, time and telemetry, and whose signature was verified, each
  as the table keeps it; none of those at the start is lost, changed or moved, and ids stay distinct.
\<close>
theorem program_table_grows:
  assumes "sqlite_engine sq valid table" and "valid db"
    and "reachable (sqlite_service sq b keys chain h) (new_gateway db c) (ph, srv)"
  defines "records_of \<equiv> \<lambda>db. map RowToRecord (table db)"
  shows "valid (repositoryState (gatewayState srv))
    \<and> distinct (ids (records_of (repositoryState (gatewayState srv))))
    \<and> (\<exists>new. records_of (repositoryState (gatewayState srv)) = records_of db @ new
      \<and> (\<forall>r \<in> set new. \<exists>p. packet r = stored_packet p \<and> deviceId p \<noteq> [] \<and> timestamp p \<noteq> 0 \<and> telemetryJson p \<noteq> []
          \<and> hashHex p = Sha256Hex h (deviceId p @ ''|'' @ u64_to_string (timestamp p) @ ''|'' @ telemetryJson p)
          \<and> Verify b keys p))"
proof -
  let ?svc = "sqlite_service sq b keys chain h"
  let ?P = "\<lambda>g. valid (repositoryState g) \<and>
    (\<exists>new. records_of (repositoryState g) = records_of db @ new \<and> (\<forall>r \<in> set new. checked_record ?svc r))"
  have grow: "?P (snd (Ingest ?svc ms p g))" if "?P g" for ms p g
  proof -
    obtain res g' where run: "Ingest ?svc ms p g = (res, g')" by fastforce
    from that obtain new where new: "records_of (repositoryState g) = records_of db @ new" "\<forall>r \<in> set new. checked_record ?svc r"
      by blast
    from sqlite_gateway.ingest_effect [OF sqlite_gateway.intro [OF assms(1)] _ run] that
    have "valid (repositoryState g')" and S: "ingest_spec ?svc stored_packet stored_receipt p (chainState g)
        (records_of (repositoryState g)) res (records_of (repositoryState g'))"
      by (simp_all add: records_of_def)
    moreover from ingest_spec_appends [OF S] obtain more where
      "records_of (repositoryState g') = records_of db @ new @ more" "\<forall>r \<in> set more. checked_record ?svc r"
      by (auto simp: new(1))
    ultimately show ?thesis using new(2) by (simp add: run) (metis UnE set_append)
  qed
  have "?P (gatewayState (snd (ph, srv)))"
    by (rule reachable_gateway [OF assms(3), of ?P]) (use assms(2) grow in \<open>simp_all add: new_gateway_def\<close>)
  then obtain new where "valid (repositoryState (gatewayState srv))"
    "records_of (repositoryState (gatewayState srv)) = records_of db @ new" "\<forall>r \<in> set new. checked_record ?svc r"
    by auto
  moreover have "\<exists>p. packet r = stored_packet p \<and> deviceId p \<noteq> [] \<and> timestamp p \<noteq> 0 \<and> telemetryJson p \<noteq> []
      \<and> hashHex p = Sha256Hex h (deviceId p @ ''|'' @ u64_to_string (timestamp p) @ ''|'' @ telemetryJson p) \<and> Verify b keys p"
    if "checked_record ?svc r" for r
    using that by (auto simp: checked_record_def packet_ok_def sqlite_service_def canonical_def)
  moreover have "distinct (ids (records_of (repositoryState (gatewayState srv))))"
    using sqlite_engine.distinct_rows [OF assms(1) calculation(1)] by (simp add: records_of_def)
  ultimately show ?thesis by blast
qed

definition demo_post :: string where
  "demo_post = http_message [''POST'' @ '' '' @ ''/api/v1/ingest'' @ '' '' @ ''HTTP/1.1'', ''Host: gateway''] demo_body"

lemma demo_post_parsed:
  "ParseHttpRequest (ReadHttpRequest [demo_post]) = Some \<lparr> httpMethod = ''POST'', httpPath = ''/api/v1/ingest'',
     httpHeaders = header_block [''Host: gateway''], httpBody = demo_body \<rparr>"
  "ReadHttpRequest [demo_post] \<noteq> []" "StripQuery ''/api/v1/ingest'' = ''/api/v1/ingest''"
proof -
  have words: "http_word ''POST''" "http_word ''/api/v1/ingest''" "http_word ''HTTP/1.1''"
    by (simp_all add: http_word_def is_space_def)
  have "http_line ''Host: gateway''" by (simp add: http_line_def)
  then have "ParseHttpRequest demo_post = Some \<lparr> httpMethod = ''POST'', httpPath = ''/api/v1/ingest'',
      httpHeaders = header_block [''Host: gateway''], httpBody = demo_body \<rparr>"
    unfolding demo_post_def by (subst ParseHttpRequest_lines [OF words]) simp_all
  moreover have "demo_post \<noteq> []" by (simp add: demo_post_def http_message_def)
  ultimately show "ParseHttpRequest (ReadHttpRequest [demo_post]) = Some \<lparr> httpMethod = ''POST'', httpPath = ''/api/v1/ingest'',
      httpHeaders = header_block [''Host: gateway''], httpBody = demo_body \<rparr>" "ReadHttpRequest [demo_post] \<noteq> []"
    by (simp_all add: ReadHttpRequest_one)
  show "StripQuery ''/api/v1/ingest'' = ''/api/v1/ingest''" by (rule StripQuery_query) simp
qed

lemma demo_post_handled:
  assumes "Ingest svc ms demo_packet (gatewayState srv) = (Inr r, g')"
  obtains srv' where "HandleClient svc ms [demo_post] fd srv = (Inr False, srv')" "gatewayState srv' = g'"
  using assms that demo_post_parsed
  by (simp add: HandleClient_def Let_def is_ws_path_def Route_def ingest_route_def demo_body_parsed)

theorem program_table_grows_witness:
  "\<exists>srv r. reachable demo_sqlite (demo_gateway False) (Accepting, srv) \<and>
     map RowToRecord (refRows (repositoryState (gatewayState srv))) = [r] \<and> (\<exists>p. packet r = stored_packet p \<and> demo_verify p)"
proof -
  let ?k = "\<lparr> socketAnswer = 3, bindAnswer = 0, listenAnswer = 0 \<rparr>"
  obtain r g' where run: "Ingest demo_sqlite 2 demo_packet (demo_gateway False) = (Inr r, g')" "accepted r"
    using demo_sqlite_accepts by blast
  obtain srv where start: "start_listening None ?k (new_server (demo_gateway False)) = (Inr (), srv)"
    and srv: "gatewayState srv = demo_gateway False" "running srv" "openFds (osState srv) = {3}" "0 \<le> listenFd srv"
    by (simp add: start_listening_def Let_def new_server_def open_fd_def)
  from demo_post_handled [of demo_sqlite 2 "srv\<lparr>osState := open_fd 4 [] (osState srv)\<rparr>" r g' 4] run srv(1)
  obtain srv' where handled: "HandleClient demo_sqlite 2 [demo_post] 4 (srv\<lparr>osState := open_fd 4 [] (osState srv)\<rparr>) = (Inr False, srv')"
    "gatewayState srv' = g'" by auto
  let ?srv = "srv'\<lparr>osState := close_fd 4 (osState srv')\<rparr>"
  have reach: "reachable demo_sqlite (demo_gateway False) (Accepting, ?srv)"
    by (rule step [OF started [OF start] closed [where signal = False]])
      (use srv(2,3,4) handled(1) in \<open>simp_all add: while_reading_def\<close>)
  from sqlite_ingest_effect [OF ref.sqlite_engine_axioms demo_gateway_valid run(1) [unfolded demo_sqlite_def]] run(2)
  have one: "length (refRows (repositoryState g')) = 1"
    by (auto simp: demo_gateway_def new_gateway_def dest!: arg_cong [where f = length])
  from program_table_grows [OF ref.sqlite_engine_axioms _ reach [unfolded demo_sqlite_def demo_gateway_def]]
  obtain new where "map RowToRecord (refRows (repositoryState g')) = new" "\<forall>r \<in> set new. \<exists>p. packet r = stored_packet p \<and> demo_verify p"
    using demo_gateway_valid [of False] handled(2) by (auto simp: demo_gateway_def new_gateway_def demo_verify_def)
  with one reach handled(2) show ?thesis
    by (intro exI [of _ ?srv]) (auto simp: length_Suc_conv)
qed

section \<open>How the program ends\<close>

lemma compose_server:
  "compose sq host = Inr (svc, srv, out) \<Longrightarrow> \<exists>g. srv = new_server g"
  by (auto simp: compose_def split: sum.splits)


section \<open>The limits from the environment\<close>

lemma stoul_u32_decimal:
  assumes "0 \<le> n"
  shows "stoul_u32 (dec_digits n) = (if n < 2 ^ 64 then Inr (of_int n) else Inl (StdException ''stoul''))"
proof -
  have "stoull (dec_digits n) 10 = (if 2 ^ 64 \<le> n then Inl OutOfRange else Inr (of_int n))"
    using assms by (subst stoull_digits) (auto simp: dec_digits_all_digits)
  moreover have "ucast (of_int n :: u64) = (of_int n :: u32)"
    by transfer (simp add: take_bit_take_bit)
  ultimately show ?thesis by (simp add: stoul_u32_def not_le)
qed

text \<open>
  C40: the limits of the Ethereum client as \<^verbatim>\<open>main\<close> reads them. A decimal number in
  \<^verbatim>\<open>AGRI_ETH_POLL_MS\<close> or \<^verbatim>\<open>AGRI_ETH_MAX_WAIT_MS\<close> is taken modulo \<open>2 ^ 32\<close>, without an error,
  up to \<open>2 ^ 64\<close>; from there on the program ends by the exception of \<^verbatim>\<open>std::stoul\<close>, which
  nothing catches, once the database is open.
\<close>
theorem ethereum_limits_wrap:
  assumes "hostEnv host ''AGRI_CHAIN_MODE'' = Some ''ethereum''" and "0 \<le> m" and "0 \<le> n"
    and "hostEnv host ''AGRI_ETH_POLL_MS'' = Some (dec_digits m)"
    and "hostEnv host ''AGRI_ETH_MAX_WAIT_MS'' = Some (dec_digits n)"
  shows "(m < 2 ^ 64 \<and> n < 2 ^ 64 \<longrightarrow>
      (\<exists>config. choose_chain (hostEnv host) = Inr (EthereumChain config)
         \<and> uint (pollIntervalMs config) = m mod 2 ^ 32 \<and> uint (maxWaitMs config) = n mod 2 ^ 32))
    \<and> (2 ^ 64 \<le> m \<or> 2 ^ 64 \<le> n \<longrightarrow>
      open_repository sq (sqlitePath (hostEnv host)) = Inr db \<longrightarrow> program_end sq host (Uncaught (StdException ''stoul'')))"
proof -
  let ?env = "hostEnv host"
  have mode: "chainMode ?env = ''ethereum''" using assms(1) by (simp add: chainMode_def env_or_def)
  have u32: "env_u32 ?env ''AGRI_ETH_POLL_MS'' d = (if m < 2 ^ 64 then Inr (of_int m) else Inl (StdException ''stoul''))"
    "env_u32 ?env ''AGRI_ETH_MAX_WAIT_MS'' d = (if n < 2 ^ 64 then Inr (of_int n) else Inl (StdException ''stoul''))" for d
    using assms by (simp_all add: env_u32_def stoul_u32_decimal)
  have fail: "choose_chain ?env = Inl (StdException ''stoul'')" if "2 ^ 64 \<le> m \<or> 2 ^ 64 \<le> n"
    using that mode by (auto simp: choose_chain_def ethereum_env_config_def u32 Let_def)
  have "program_end sq host (Uncaught (StdException ''stoul''))"
    if "2 ^ 64 \<le> m \<or> 2 ^ 64 \<le> n" "open_repository sq (sqlitePath ?env) = Inr db"
    using fail [OF that(1)] that(2) by (intro not_composed) (simp add: compose_def)
  moreover have "\<exists>config. choose_chain ?env = Inr (EthereumChain config)
         \<and> uint (pollIntervalMs config) = m mod 2 ^ 32 \<and> uint (maxWaitMs config) = n mod 2 ^ 32"
    if "m < 2 ^ 64 \<and> n < 2 ^ 64"
    using that mode by (simp add: choose_chain_def ethereum_env_config_def u32 Let_def uint_word_of_int)
  ultimately show ?thesis by blast
qed


definition demo_env :: environment where
  "demo_env = [''AGRI_CHAIN_MODE'' \<mapsto> ''ethereum'', ''AGRI_ETH_POLL_MS'' \<mapsto> dec_digits 4294967296,
     ''AGRI_ETH_MAX_WAIT_MS'' \<mapsto> dec_digits 4294967301]"

definition demo_host :: "environment \<Rightarrow> unit host" where
  "demo_host env = \<lparr> hostEnv = env, hostKeys = (\<lambda>_. demo_directory), hostVerify = PlainVerify,
     hostHash = demo_hash, hostNow = 0, hostRpc = (\<lambda>_. slow_node) \<rparr>"

lemma demo_composed: "\<exists>svc g out. compose ref_engine (demo_host Map.empty) = Inr (svc, new_server g, out)"
  by (simp add: compose_def open_repository_def EnsureSchema_def ExecOrThrow_def ref_engine_def sqlite_codes
      choose_chain_def chainMode_def env_or_def demo_host_def, blast)


theorem ethereum_limits_wrap_witness:
  "\<exists>config. choose_chain demo_env = Inr (EthereumChain config) \<and> uint (pollIntervalMs config) = 0 \<and> uint (maxWaitMs config) = 5"
  using ethereum_limits_wrap [of "demo_host demo_env" 4294967296 4294967301]
  by (simp add: demo_host_def demo_env_def)

end
