(* ===== verification/Program_Answers.thy ===== *)
theory Program_Answers
  imports Main_Program
begin

text \<open>
  The program of \<^verbatim>\<open>src/main.cpp\<close> as its clients see it: a packet whose POST was answered 202
  is found by the query routes, then and in all later states of the server, and its receipt is
  one that the chosen chain client has issued.
\<close>

lemma later_table:
  assumes "sqlite_engine sq valid table" and "(server_step (sqlite_service sq b keys chain h))\<^sup>*\<^sup>* p q"
    and "valid (repositoryState (gatewayState (snd p)))"
  shows "valid (repositoryState (gatewayState (snd q))) \<and>
    prefix (map RowToRecord (table (repositoryState (gatewayState (snd p))))) (map RowToRecord (table (repositoryState (gatewayState (snd q)))))"
proof (rule later_gateway [OF assms(2), where P = "\<lambda>g. valid (repositoryState g) \<and>
    prefix (map RowToRecord (table (repositoryState (gatewayState (snd p))))) (map RowToRecord (table (repositoryState g)))"])
  fix ms pk and g :: "('a, 'b) gateway"
  let ?rs = "map RowToRecord (table (repositoryState (gatewayState (snd p))))"
  assume old: "valid (repositoryState g) \<and> prefix ?rs (map RowToRecord (table (repositoryState g)))"
  obtain res g' where run: "Ingest (sqlite_service sq b keys chain h) ms pk g = (res, g')" by fastforce
  from sqlite_gateway.ingest_effect [OF sqlite_gateway.intro [OF assms(1)] _ run] old
  have "valid (repositoryState g')" and S: "ingest_spec (sqlite_service sq b keys chain h) stored_packet stored_receipt pk
      (chainState g) (map RowToRecord (table (repositoryState g))) res (map RowToRecord (table (repositoryState g')))"
    by simp_all
  with ingest_spec_appends [OF S] old show "valid (repositoryState (snd (Ingest (sqlite_service sq b keys chain h) ms pk g))) \<and>
      prefix ?rs (map RowToRecord (table (repositoryState (snd (Ingest (sqlite_service sq b keys chain h) ms pk g)))))"
    by (auto simp: run)
qed (use assms(3) in simp)


lemma posted_record:
  assumes "sqlite_engine sq valid table" and "valid (repositoryState (gatewayState srv))"
    and "Route (sqlite_service sq b keys chain h) ms (post_request body) srv = (Inr resp, srv')" and "statusCode resp = 202"
  obtains r rc where "packet r = stored_packet (parsedPacket (ParseTelemetryPacketJson body))" "receipt r = Some (stored_receipt rc)"
    "r \<in> set (map RowToRecord (table (repositoryState (gatewayState srv'))))" "valid (repositoryState (gatewayState srv'))"
proof -
  from ingest_route_accepted [OF assms(3,4)] obtain res g' where
    run: "Ingest (sqlite_service sq b keys chain h) ms (parsedPacket (ParseTelemetryPacketJson body)) (gatewayState srv) = (Inr res, g')"
      "accepted res" "gatewayState srv' = g'" "deviceId (parsedPacket (ParseTelemetryPacketJson body)) \<noteq> []" .
  from sqlite_ingest_effect [OF assms(1,2) run(1)] run(2) obtain rc where
    "valid (repositoryState g')" "map RowToRecord (table (repositoryState g')) = map RowToRecord (table (repositoryState (gatewayState srv)))
      @ [\<lparr> recordId = resultRecordId res, packet = stored_packet (parsedPacket (ParseTelemetryPacketJson body)),
           receipt = Some (stored_receipt rc) \<rparr>]" by auto
  with run(3) show thesis
    by (intro that [of "\<lparr> recordId = resultRecordId res, packet = stored_packet (parsedPacket (ParseTelemetryPacketJson body)),
           receipt = Some (stored_receipt rc) \<rparr>" rc]) simp_all
qed




section \<open>Receipts\<close>

interpretation program_chain: receipt_source "chain_client h now choice" "\<lambda>_. sha256_sized h" for h now choice
proof unfold_locales
  fix hash device ts s rc s'
  assume sized: "sha256_sized h" and run: "SubmitHash (chain_client h now choice) hash device ts s = (Inr rc, s')"
  obtain envs counter where s: "s = (envs, counter)" by fastforce
  show "proper_receipt rc"
  proof (cases choice)
    case (EthereumChain config)
    obtain r envs' where "SubmitHash (ethereum_client config) hash device ts envs = (r, envs')" by fastforce
    with run show ?thesis by (simp add: chain_client_def s EthereumChain) (metis ethereum.proper)
  next
    case MockChain
    obtain r counter' where "SubmitHash (mock_client h now) hash device ts counter = (r, counter')" by fastforce
    with run show ?thesis by (simp add: chain_client_def s MockChain) (metis mock.proper sized)
  qed
qed

text \<open>
  C23: the receipts of the program. Whichever chain the environment chose, an ingest that the
  program accepts carries a receipt that names a transaction: its hash is not empty and has no
  quotation mark, and its time is a reading of the clock in the form of \<^verbatim>\<open>CurrentUtcIso8601\<close>.
\<close>
theorem program_receipts_proper:
  assumes "sha256_sized (hostHash host)"
    and "Ingest (program_service sq host choice) ms p g = (Inr r, g')" and "accepted r"
  shows "\<exists>rc now. resultReceipt r = Some rc \<and> txHash rc \<noteq> [] \<and> CHR 0x22 \<notin> set (txHash rc)
    \<and> submittedAtIso8601 rc = CurrentUtcIso8601 now"
proof -
  have "blockchainClient (program_service sq host choice) = chain_client (hostHash host) (hostNow host) choice"
    by (simp add: program_service_def sqlite_service_def)
  from program_chain.accepted_receipt [OF this assms] show ?thesis by (auto simp: proper_receipt_def)
qed

definition program_packet :: telemetry_packet where
  "program_packet = demo_packet\<lparr> pubKeyId := ''pubkey-1'', signature := hashHex demo_packet @ '':pubkey-1'' \<rparr>"

lemma program_packet_ok: "packet_ok (program_service ref_engine (demo_host Map.empty) MockChain) program_packet"
proof -
  have demo: "packet_ok demo_service demo_packet" by (rule demo_packet_ok)
  have "canonical program_packet = canonical demo_packet" by (simp add: canonical_def program_packet_def)
  moreover from demo have hash: "length (hashHex demo_packet) = 64" "IsHex64 (hashHex demo_packet)" "deviceId demo_packet \<noteq> []"
    unfolding packet_ok_def IsHex64_def by blast+
  then have "Verify (PlainVerify :: unit verify_build) (public_keys (demo_host Map.empty)) program_packet"
    using LoadPublicKeys_finds_witness by (simp add: Verify_iff program_packet_def public_keys_def demo_host_def)
  moreover have "deviceId program_packet = deviceId demo_packet" "timestamp program_packet = timestamp demo_packet"
    "telemetryJson program_packet = telemetryJson demo_packet" "hashHex program_packet = hashHex demo_packet"
    "signatureVerifier (program_service ref_engine (demo_host Map.empty) MockChain) = Verify (PlainVerify :: unit verify_build) (public_keys (demo_host Map.empty))"
    "hashBuild (program_service ref_engine (demo_host Map.empty) MockChain) = hashBuild demo_service"
    by (simp_all add: program_packet_def program_service_def sqlite_service_def demo_host_def demo_service_def)
  ultimately show ?thesis using demo unfolding packet_ok_def by metis
qed

theorem program_receipts_proper_witness:
  "\<exists>r g g' rc now. Ingest (program_service ref_engine (demo_host Map.empty) MockChain) 2 program_packet g = (Inr r, g')
    \<and> resultReceipt r = Some rc \<and> submittedAtIso8601 rc = CurrentUtcIso8601 now"
proof -
  let ?svc = "program_service ref_engine (demo_host Map.empty) MockChain"
  let ?g = "new_gateway \<lparr> refRows = [], refSequence = 0, refChanges = 0, refFailing = False \<rparr> (\<lambda>_. slow_node, mock_counter)"
  have "\<exists>r g'. Ingest ?svc 2 program_packet ?g = (Inr r, g') \<and> accepted r"
    unfolding Ingest_two_phase [OF program_packet_ok]
    by (simp add: two_phase_def program_service_def sqlite_service_def sqlite_repository_def sq_Save_def sq_AttachReceipt_def
        engine_simps chain_client_def mock_client_def mock_SubmitHash_def Let_def new_gateway_def finish_simps max_rowid_def)
  then obtain r g' where run: "Ingest ?svc 2 program_packet ?g = (Inr r, g')" "accepted r" by blast
  have "sha256_sized (hostHash (demo_host Map.empty))" by (simp add: demo_host_def demo_hash_def)
  from program_receipts_proper [OF this run] run show ?thesis by blast
qed

end
