(* ===== verification/Http_Exchange.thy ===== *)
theory Http_Exchange
  imports Http_Message Ethereum_Client
begin

text \<open>
  The HTTP client of \<^verbatim>\<open>src/blockchain/ethereum_rpc_blockchain_client.cpp\<close> against
  the HTTP server of \<^verbatim>\<open>src/api/http_server.cpp\<close>: each reads back what the other writes.
\<close>

section \<open>Requests and responses\<close>

text \<open>
  The request that \<^verbatim>\<open>HttpPostJson\<close> writes: its lines, and that they announce its body.
\<close>

definition request_lines :: "parsed_http_url \<Rightarrow> string \<Rightarrow> string list" where
  "request_lines u payload =
     [''POST '' @ urlPath u @ '' HTTP/1.1'', ''Host: '' @ urlHost u, ''Content-Type: application/json'',
      ''Content-Length: '' @ size_to_string (length payload), ''Connection: close'']"

definition plain_url :: "parsed_http_url \<Rightarrow> bool" where
  "plain_url u \<longleftrightarrow> http_word (urlPath u) \<and> CHR '':'' \<notin> set (urlPath u) \<and>
     CHR '':'' \<notin> set (urlHost u) \<and> CHR 0x0D \<notin> set (urlHost u)"

lemma request_message: "http_request_text u payload = http_message (request_lines u payload) payload"
  by (simp add: http_request_text_def http_message_def request_lines_def)

lemma request_http_lines: "plain_url u \<Longrightarrow> \<forall>l \<in> set (request_lines u payload). http_line l"
  by (auto simp: request_lines_def http_line_def plain_url_def http_word_no_CR)

lemma request_length:
  assumes "plain_url u" "length payload < 2 ^ 64"
  shows "ParseContentLength (header_block (request_lines u payload)) = of_nat (length payload)"
proof -
  let ?pre = "http_lines (take 3 (request_lines u payload))" and ?ds = "size_to_string (length payload)"
  let ?rest = "crlf @ ''Connection: close''"
  have block: "header_block (request_lines u payload) = ?pre @ ''Content-Length:'' @ '' '' @ ?ds @ ?rest"
    by (simp add: request_lines_def header_block_Cons)
  have colons: "\<forall>l \<in> set (take 3 (request_lines u payload)). CHR '':'' \<notin> set (drop 14 l)"
    using assms(1) by (auto simp: request_lines_def plain_url_def dest: in_set_dropD)
  have "names_length ''Content-Length:''" by code_simp
  moreover have "\<forall>c \<in> set ?ds. is_digit c" by (auto simp: size_to_string_def dest: dec_digits_all_digits)
  moreover have "\<not> is_digit (CHR 0x0D)" by (simp add: is_digit_def)
  moreover have "stoull ?ds 10 = Inr (of_nat (length payload))"
    using assms(2) stoull_digits [of ?ds] by (simp add: size_to_string_def dec_digits_all_digits)
  ultimately show ?thesis
    unfolding block using no_length_name_lines [OF colons]
    by (subst ParseContentLength_at) (simp_all add: size_to_string_def)
qed

text \<open>
  C10: the gateway's HTTP client and its HTTP server agree on requests. Whatever payload
  \<^verbatim>\<open>HttpPostJson\<close> posts to a plain url, if the request fits the limit of 1 MiB then the
  server, however the network cuts it, reads exactly the request and parses it into the method
  POST, the path of the url and the payload, byte for byte.
\<close>
theorem HttpPostJson_request_read:
  assumes "plain_url u" and "concat blocks = http_request_text u payload"
    and "length (http_request_text u payload) \<le> 1024 * 1024" and "\<forall>b \<in> set blocks. b \<noteq> []"
  shows "ParseHttpRequest (ReadHttpRequest (blocks @ later)) =
    Some \<lparr> httpMethod = ''POST'', httpPath = urlPath u,
      httpHeaders = header_block (tl (request_lines u payload)), httpBody = payload \<rparr>"
proof -
  let ?ls = "request_lines u payload"
  have ls: "?ls = (''POST'' @ '' '' @ urlPath u @ '' '' @ ''HTTP/1.1'') # tl ?ls" "tl ?ls \<noteq> []"
    by (simp_all add: request_lines_def)
  have lines: "\<forall>l \<in> set ?ls. http_line l" using request_http_lines [OF assms(1)] .
  have message: "http_message ?ls payload = header_block ?ls @ crlf @ crlf @ payload"
    using http_lines_block [of ?ls] ls(2) by (force simp: http_message_def)
  have len: "length (http_lines ?ls) - 2 = length (header_block ?ls)"
    by (simp add: header_block_def)
  have "length payload < 2 ^ 64" using assms(3) by (simp add: request_message message)
  then have "announced_request (header_block ?ls) payload"
    using find_header_end [OF _ lines, of payload] request_length [OF assms(1)] ls(2) message
    unfolding announced_request_def len by (metis list.sel(2))
  from ReadHttpRequest_blocks [OF this, of blocks later] assms(2-4)
  have read: "ReadHttpRequest (blocks @ later) = http_message ?ls payload"
    by (simp add: request_message message)
  have words: "http_word ''POST''" "http_word (urlPath u)" "http_word ''HTTP/1.1''"
    using assms(1) by (auto simp: plain_url_def http_word_def is_space_def)
  show ?thesis
    unfolding read using ParseHttpRequest_lines [OF words, of "tl ?ls" payload] lines ls
    by (metis list.set_intros(2))
qed


theorem HttpPostJson_request_read_witness:
  "ParseHttpRequest (ReadHttpRequest [''POST /rpc HTTP/1.1'' @ crlf @ ''Host: node'' @ crlf @ ''Content-'',
       ''Type: application/json'' @ crlf @ ''Content-Length: 2'' @ crlf @ ''Connection: close'' @ crlf @ crlf @ ''{'', ''}'']) =
     Some \<lparr> httpMethod = ''POST'', httpPath = ''/rpc'',
       httpHeaders = ''Host: node'' @ crlf @ ''Content-Type: application/json'' @ crlf @
         ''Content-Length: 2'' @ crlf @ ''Connection: close'', httpBody = ''{}'' \<rparr>"
proof -
  let ?u = "\<lparr> urlHost = ''node'', urlPort = ''80'', urlPath = ''/rpc'' \<rparr>"
  have "plain_url ?u" by (simp add: plain_url_def http_word_def is_space_def)
  moreover have "size_to_string (Suc (Suc 0)) = ''2''" by code_simp
  ultimately show ?thesis
    using HttpPostJson_request_read [of ?u "[''POST /rpc HTTP/1.1'' @ crlf @ ''Host: node'' @ crlf @ ''Content-'',
       ''Type: application/json'' @ crlf @ ''Content-Length: 2'' @ crlf @ ''Connection: close'' @ crlf @ crlf @ ''{'', ''}'']"
       "''{}''" "[]"]
    by (simp add: http_request_text_def request_lines_def header_block_Cons)
qed

lemma dec_digits_three:
  assumes "100 \<le> n" "n < 1000"
  obtains a b c where "dec_digits n = [a, b, c]" "is_digit a" "is_digit b" "is_digit c"
proof -
  have "\<not> n < 10" "\<not> n div 10 < 10" "n div 10 div 10 < 10" using assms by auto
  then have "dec_digits n = [digit_char (n div 10 div 10), digit_char (n div 10 mod 10), digit_char (n mod 10)]"
    by (simp only: dec_digits.simps [of n] dec_digits.simps [of "n div 10"] dec_digits.simps [of "n div 10 div 10"]
        if_True if_False append.simps)
  then show thesis by (rule that) (use assms in \<open>auto intro!: is_digit_digit_char\<close>)
qed

lemma StatusText_no_CR: "CHR 0x0D \<notin> set (StatusText n)"
  by (simp add: StatusText_def)

text \<open>
  C30: the gateway's HTTP client and its HTTP server agree on responses. Over a connection that
  resolves, connects, sends the request and delivers what \<^verbatim>\<open>BuildRawResponse\<close> wrote, in any
  blocks, \<^verbatim>\<open>HttpPostJson\<close> returns the body of a 2xx response byte for byte and
  throws the status of any other.
\<close>
theorem HttpPostJson_response_read:
  assumes "ParseHttpUrl url = Some u"
    and "getaddrinfo net (c_str (urlHost u)) (c_str (urlPort u)) = (0, addrs)" "addrs \<noteq> []" "0 \<le> connect_first addrs"
    and "send_result net (http_request_text u payload) = int (length (http_request_text u payload))"
    and "concat (recv_blocks net (http_request_text u payload)) = BuildRawResponse r"
    and "100 \<le> statusCode r" "statusCode r < 1000" "CHR 0x0D \<notin> set (contentType r)"
  shows "HttpPostJson net url payload =
    (if 200 \<le> statusCode r \<and> statusCode r < 300 then Inr (responseBody r)
     else Inl (StdException (''rpc http status '' @ dec_digits (statusCode r))))"
proof -
  obtain a b c where abc: "dec_digits (statusCode r) = [a, b, c]" "is_digit a" "is_digit b" "is_digit c"
    using dec_digits_three assms(7,8) by blast
  then have status: "digits_value 10 [a, b, c] = statusCode r"
    using assms(7) digits_value_dec_digits [of "statusCode r"] by simp
  let ?phrase = "'' '' @ StatusText (statusCode r)"
  let ?headers = "[''Content-Type: '' @ contentType r, ''Content-Length: '' @ size_to_string (length (responseBody r)),
    ''Connection: close'']"
  have "BuildRawResponse r = http_message ((''HTTP/1.1 '' @ [a, b, c] @ ?phrase) # ?headers) (responseBody r)"
    by (simp add: BuildRawResponse_def http_message_def abc(1))
  moreover have "\<forall>l \<in> set ?headers. http_line l" using assms(9) by (simp add: http_line_def)
  ultimately show ?thesis
    using HttpPostJson_reply [OF assms(1-5) _ abc(2-4), of ?phrase ?headers "responseBody r"] assms(6) StatusText_no_CR
    by (simp add: status abc(1) Let_def)
qed


definition served :: "http_response \<Rightarrow> exchange" where
  "served r = \<lparr> getaddrinfo = \<lambda>h p. (0, [(3, 0)]), send_result = \<lambda>t. int (length t), recv_blocks = \<lambda>t. [BuildRawResponse r] \<rparr>"

theorem HttpPostJson_response_read_witness:
  "HttpPostJson (served (json_response 202 ''{}'')) ''http://127.0.0.1:8545'' ''1'' = Inr ''{}''
   \<and> HttpPostJson (served (json_response 404 ''{}'')) ''http://127.0.0.1:8545'' ''1'' = Inl (StdException ''rpc http status 404'')"
proof -
  let ?u = "\<lparr> urlHost = ''127.0.0.1'', urlPort = ''8545'', urlPath = ''/'' \<rparr>"
  have "dec_digits 404 = ''404''" by code_simp
  then show ?thesis
    using HttpPostJson_response_read [of "''http://127.0.0.1:8545''" ?u "served (json_response 202 ''{}'')" "[(3, 0)]" "''1''" "json_response 202 ''{}''"]
      HttpPostJson_response_read [of "''http://127.0.0.1:8545''" ?u "served (json_response 404 ''{}'')" "[(3, 0)]" "''1''" "json_response 404 ''{}''"]
    by (simp add: ParseHttpUrl_demo served_def json_response_def)
qed

end
