(* ===== verification/Gateway_Equivalence.thy ===== *)
theory Gateway_Equivalence
  imports Sqlite_Gateway
begin

text \<open>
  The two implementations of \<^verbatim>\<open>TelemetryRepository\<close> under the ingest service: the tests run it
  over the in-memory one, \<^verbatim>\<open>main.cpp\<close> over SQLite. While the SQL engine does not fail, its row
  ids are numbered by \<^verbatim>\<open>AUTOINCREMENT\<close>, the texts hold no NUL and no transaction hash
  comes twice, the two gateways give the same results call by call and keep the same records. The
  proof is one lemma for each operation that both repositories take from agreeing states to
  agreeing states, lifted to the ingest and to sequences of ingests.
\<close>

section \<open>Receipts that both repositories keep\<close>

definition tx_hashes :: "telemetry_record list \<Rightarrow> string list" where
  "tx_hashes rs = concat (map (\<lambda>r. case receipt r of None \<Rightarrow> [] | Some rc \<Rightarrow> [txHash rc]) rs)"

definition clean_receipts :: "telemetry_record list \<Rightarrow> bool" where
  "clean_receipts rs \<longleftrightarrow> distinct (tx_hashes rs) \<and> (\<forall>r \<in> set rs. map_option stored_receipt (receipt r) = receipt r)"

lemma tx_hashes_simps [simp]: "tx_hashes [] = []"
  "tx_hashes (r # rs) = (case receipt r of None \<Rightarrow> [] | Some rc \<Rightarrow> [txHash rc]) @ tx_hashes rs"
  "tx_hashes (rs @ qs) = tx_hashes rs @ tx_hashes qs"
  by (simp_all add: tx_hashes_def)

lemma has_tx_hashes: "r \<in> set rs \<Longrightarrow> has_tx t r \<Longrightarrow> t \<in> set (tx_hashes rs)"
  by (force simp: tx_hashes_def has_tx_def split: option.splits)

lemma clean_receipts_prefix: "clean_receipts (rs @ qs) \<Longrightarrow> clean_receipts rs"
  by (simp add: clean_receipts_def)

section \<open>An engine without failures\<close>

text \<open>
  What the documentation promises of an engine that has room and no error: every statement is
  prepared, a new row gets the next number, and a change that keeps the unique index is done.
\<close>

locale healthy_engine = sqlite_engine sq valid table
  for sq :: "'d sqlite" and valid :: "'d \<Rightarrow> bool" and table :: "'d \<Rightarrow> telemetry_row list" +
  fixes healthy :: "'d \<Rightarrow> bool" and sequence :: "'d \<Rightarrow> u64"
  assumes accepts: "healthy db \<Longrightarrow> prepareCode sq sql db = SQLITE_OK \<and> bindCode sq sql k v db = SQLITE_OK"
    and inserts: "\<lbrakk> valid db; healthy db; sequence db < max_rowid; target w = None; writeStep sq w db = (status, db') \<rbrakk> \<Longrightarrow>
        status = SQLITE_DONE \<and> healthy db' \<and> lastInsertRowid sq db' = sequence db + 1 \<and> sequence db' = sequence db + 1"
    and changes: "\<lbrakk> valid db; healthy db; target w = Some i; unique_txs (changed w (table db)); writeStep sq w db = (status, db') \<rbrakk> \<Longrightarrow>
        status = SQLITE_DONE \<and> healthy db' \<and> sequence db' = sequence db"
    and answers: "\<lbrakk> valid db; healthy db \<rbrakk> \<Longrightarrow> snd (queryRows sq q db) = SQLITE_DONE \<and> fst (countStep sq db) = SQLITE_ROW"

text \<open>Rows that arrived in the order of the queries are returned in that order.\<close>

lemma in_order_filter:
  assumes "sorted_wrt not_later (map RowToRecord rows)"
  shows "in_order (filter P rows) = filter P rows"
proof -
  have "sorted (map order_key rows)" using assms by (simp add: sorted_wrt_map)
  then have "sorted (map order_key (filter P rows))" by (rule sorted_filter)
  then show ?thesis unfolding in_order_def by (rule sort_key_id_if_sorted)
qed

section \<open>Agreeing states\<close>

text \<open>
  The two repositories hold the same records, and the counter of the one is the next row id of the
  other; two gateways are twins when their repositories agree and the rest is equal.
\<close>

definition agrees :: "('d \<Rightarrow> bool) \<Rightarrow> ('d \<Rightarrow> telemetry_row list) \<Rightarrow> ('d \<Rightarrow> bool) \<Rightarrow> ('d \<Rightarrow> u64) \<Rightarrow> in_memory \<Rightarrow> 'd \<Rightarrow> bool" where
  "agrees valid table healthy sequence m db \<longleftrightarrow> valid db \<and> healthy db \<and> mem_inv m \<and> tx_ok m \<and>
     nextRecordId m = sequence db + 1 \<and> records m = map RowToRecord (table db)"

definition twins :: "(in_memory \<Rightarrow> 'd \<Rightarrow> bool) \<Rightarrow> (in_memory, 'c) gateway \<Rightarrow> ('d, 'c) gateway \<Rightarrow> bool" where
  "twins same gm gs \<longleftrightarrow> same (repositoryState gm) (repositoryState gs) \<and> chainState gm = chainState gs \<and>
     totalRequests gm = totalRequests gs \<and> acceptedRequests gm = acceptedRequests gs \<and>
     rejectedRequests gm = rejectedRequests gs \<and> totalProcessingMs gm = totalProcessingMs gs"

lemma below_max_rowid:
  assumes "n < max_rowid"
  shows "unat (n + 1) = Suc (unat n)" "unat (n + 1) < 2 ^ 64 - 1"
proof -
  have "n < n + 1" using next_rowid(1) [of n] assms by simp
  then have "1 + n \<noteq> 0" by (auto simp: add.commute)
  then show "unat (n + 1) = Suc (unat n)" using unatSuc [of n] by (simp add: add.commute)
  then show "unat (n + 1) < 2 ^ 64 - 1" using assms by (simp add: max_rowid_def word_less_nat_alt)
qed

lemma agrees_room:
  "agrees valid table healthy sequence m db \<Longrightarrow> sequence db < max_rowid \<Longrightarrow> mem_room m"
  using below_max_rowid(2) by (intro mem_room_unat) (simp add: agrees_def)

lemma packet_ok_sqlite:
  "packet_ok (sqlite_service sq b keys chain h) p = packet_ok (memory_service b keys chain h) p"
  by (simp add: packet_ok_def sqlite_service_def)

context healthy_engine
begin

lemma prepared_ok: "healthy db \<Longrightarrow> prepared sq db sql bs = Inr ()"
proof -
  assume h: "healthy db"
  have "bind_all sq db sql bs = Inr ()"
    using accepts [OF h] by (induction bs) (auto simp: ThrowIfSqlError_def)
  then show ?thesis using accepts [OF h] by (simp add: prepared_def PrepareOrThrow_def ThrowIfSqlError_def)
qed

lemma run_write_done:
  "healthy db \<Longrightarrow> writeStep sq (statement_write sql (parameters bs)) db = (SQLITE_DONE, db') \<Longrightarrow>
     run_write sq sql bs pre db = (Inr (), db')"
  by (simp add: run_write_def prepared_ok ThrowIfSqlError_def)

text \<open>The three operations that change a repository.\<close>

lemma save_agrees:
  assumes same: "agrees valid table healthy sequence m db" and room: "sequence db < max_rowid"
    and clean: "stored_packet p = p"
  obtains m' db' where "mem_Save p m = (sequence db + 1, m')" "sq_Save sq p db = (Inr (sequence db + 1), db')"
    "agrees valid table healthy sequence m' db'" "sequence db' = sequence db + 1"
    "records m' = records m @ [new_record (sequence db + 1) p]" "sequence db + 1 \<notin> set (ids (records m))"
proof -
  let ?i = "sequence db + 1"
  from same have v: "valid db" "healthy db" "mem_inv m" "tx_ok m" "nextRecordId m = ?i" "records m = map RowToRecord (table db)"
    by (simp_all add: agrees_def)
  obtain m' where mem: "mem_Save p m = (?i, m')" using v(5) by (simp add: mem_Save_def Let_def)
  note mroom = agrees_room [OF same room]
  from mem.save_ok [OF v(3) mroom, of p ?i m'] mem
  have m': "mem_inv m'" "?i \<notin> set (ids (records m))" "records m' = records m @ [new_record ?i p]"
    by (simp_all add: in_memory_repository_def)
  have next_id: "nextRecordId m' = ?i + 1" using nextRecordId_simps(1) [of p m] mem v(5) by simp
  let ?w = "InsertRecord (c_str (deviceId p)) (timestamp p) (c_str (telemetryJson p)) (c_str (hashHex p))
    (c_str (signature p)) (c_str (pubKeyId p)) (c_str (transport p))
    (if batchCode p = [] then None else Some (c_str (batchCode p)))"
  obtain status db' where w: "writeStep sq ?w db = (status, db')" by fastforce
  from inserts [OF v(1,2) room _ w] have fin: "status = SQLITE_DONE" "healthy db'" "lastInsertRowid sq db' = ?i" "sequence db' = ?i"
    by simp_all
  have run: "sq_Save sq p db = (Inr ?i, db')"
    unfolding sq_Save_def
    by (subst run_write_done [OF v(2), of _ _ db']) (simp_all only: statement_insert w fin sum.case prod.case)
  from store.save_ok [OF v(1) TrueI, of p ?i db'] run clean v(6)
  have db': "valid db'" "map RowToRecord (table db') = records m'"
    by (simp_all add: sqlite_repository_def m'(3))
  have "agrees valid table healthy sequence m' db'"
    using db' fin m' next_id tx_ok_Save [OF v(4) mem] by (simp add: agrees_def)
  with mem run fin m' show thesis by (intro that)
qed

lemma attach_agrees:
  assumes same: "agrees valid table healthy sequence m db" and clean: "stored_receipt rc = rc"
    and bare: "\<And>r. r \<in> set (records m) \<Longrightarrow> recordId r = i \<Longrightarrow> receipt r = None"
    and fresh: "\<And>r. r \<in> set (records m) \<Longrightarrow> \<not> has_tx (txHash rc) r"
  obtains b m' db' where "mem_AttachReceipt i rc m = (b, m')" "sq_AttachReceipt sq i rc db = (Inr b, db')"
    "agrees valid table healthy sequence m' db'" "sequence db' = sequence db"
proof -
  from same have v: "valid db" "healthy db" "mem_inv m" "tx_ok m" "nextRecordId m = sequence db + 1"
      "records m = map RowToRecord (table db)"
    by (simp_all add: agrees_def)
  obtain b m' where mem: "mem_AttachReceipt i rc m = (b, m')" by fastforce
  from mem.attach_ok [OF v(3), of i rc b m'] mem
  have m': "mem_inv m'" "b \<longleftrightarrow> i \<in> set (ids (records m))" "records m' = store_attach i rc (records m)"
    by (simp_all add: in_memory_repository_def)
  have tx: "txHash rc = c_str (txHash rc)" using clean by (metis stored_receipt_c_str)
  let ?w = "UpdateReceipt (c_str (txHash rc)) (blockHeight rc) (c_str (submittedAtIso8601 rc)) i"
  have "colTx r \<noteq> Some (c_str (txHash rc))" if "r \<in> set (table db)" for r
    using fresh [of "RowToRecord r"] that v(6) tx by (simp add: has_tx_row)
  then have "unique_txs (changed ?w (table db))"
    by (intro unique_txs_update unique_tx distinct_rows v(1)) auto
  moreover obtain status db' where w: "writeStep sq ?w db = (status, db')" by fastforce
  ultimately have fin: "status = SQLITE_DONE" "healthy db'" "sequence db' = sequence db"
    using changes [OF v(1,2), of ?w i] by simp_all
  have run: "sq_AttachReceipt sq i rc db = (Inr (0 < changesOf sq db'), db')"
    unfolding sq_AttachReceipt_def
    by (subst run_write_done [OF v(2), of _ _ db']) (simp_all only: statement_update w fin sum.case prod.case)
  from store.attach_ok [OF v(1), of i rc _ db'] run
  have db': "valid db'" "0 < changesOf sq db' \<longleftrightarrow> b" "map RowToRecord (table db') = records m'"
    by (simp_all add: sqlite_repository_def m' v(6) clean)
  have "agrees valid table healthy sequence m' db'"
    using db' fin m' v(5) nextRecordId_simps(2) [of i rc m] tx_ok_Attach [OF v(3,4) mem bare fresh] mem by (simp add: agrees_def)
  moreover have "sq_AttachReceipt sq i rc db = (Inr b, db')" using run db'(2) by simp
  ultimately show thesis using that mem fin(3) by blast
qed

lemma delete_agrees:
  assumes same: "agrees valid table healthy sequence m db"
  obtains b m' db' where "mem_Delete i m = (b, m')" "sq_Delete sq i db = (Inr b, db')"
    "agrees valid table healthy sequence m' db'" "sequence db' = sequence db"
proof -
  from same have v: "valid db" "healthy db" "mem_inv m" "tx_ok m" "nextRecordId m = sequence db + 1"
      "records m = map RowToRecord (table db)"
    by (simp_all add: agrees_def)
  obtain b m' where mem: "mem_Delete i m = (b, m')" by fastforce
  from mem.delete_ok [OF v(3), of i b m'] mem
  have m': "mem_inv m'" "b \<longleftrightarrow> i \<in> set (ids (records m))" "records m' = store_delete i (records m)"
    by (simp_all add: in_memory_repository_def)
  have "unique_txs (changed (DeleteRecord i) (table db))"
    using unique_txs_filter [OF unique_tx [OF v(1)]] by simp
  moreover obtain status db' where w: "writeStep sq (DeleteRecord i) db = (status, db')" by fastforce
  ultimately have fin: "status = SQLITE_DONE" "healthy db'" "sequence db' = sequence db"
    using changes [OF v(1,2), of "DeleteRecord i" i] by simp_all
  have run: "sq_Delete sq i db = (Inr (0 < changesOf sq db'), db')"
    unfolding sq_Delete_def
    by (subst run_write_done [OF v(2), of _ _ db']) (simp_all only: statement_delete w fin sum.case prod.case)
  from store.delete_ok [OF v(1), of i _ db'] run
  have db': "valid db'" "0 < changesOf sq db' \<longleftrightarrow> b" "map RowToRecord (table db') = records m'"
    by (simp_all add: sqlite_repository_def m' v(6))
  have "agrees valid table healthy sequence m' db'"
    using db' fin m' v(5) nextRecordId_simps(3) [of i m] tx_ok_Delete [OF v(3,4) mem] mem by (simp add: agrees_def)
  moreover have "sq_Delete sq i db = (Inr b, db')" using run db'(2) by simp
  ultimately show thesis using that mem fin(3) by blast
qed

text \<open>One ingest: the rollback, the part from the save on, the whole.\<close>

lemma fail_agrees:
  assumes "twins (agrees valid table healthy sequence) gm gs"
    and "fail_after_save (memory_service b keys chain h) ms i msg result gm = (res, gm')"
  obtains gs' where "fail_after_save (sqlite_service sq b keys chain h) ms i msg result gs = (res, gs')"
    "twins (agrees valid table healthy sequence) gm' gs'" "sequence (repositoryState gs') = sequence (repositoryState gs)"
proof -
  from assms(1) have same: "agrees valid table healthy sequence (repositoryState gm) (repositoryState gs)"
    by (simp add: twins_def)
  obtain c m' db' where del: "mem_Delete i (repositoryState gm) = (c, m')" "sq_Delete sq i (repositoryState gs) = (Inr c, db')"
    "agrees valid table healthy sequence m' db'" "sequence db' = sequence (repositoryState gs)"
    by (rule delete_agrees [OF same])
  obtain gs' where gs': "fail_after_save (sqlite_service sq b keys chain h) ms i msg result gs = (res, gs')"
      "gs' = RecordRejected ms (gs\<lparr>repositoryState := db'\<rparr>)"
    using assms(2) del
    by (simp add: fail_after_save_def rollbackBestEffort_def sqlite_service_def sqlite_repository_def in_memory_repository_def
        finishWith_def)
  moreover have "gm' = RecordRejected ms (gm\<lparr>repositoryState := m'\<rparr>)"
    using assms(2) del by (simp add: fail_after_save_def rollbackBestEffort_def in_memory_repository_def finishWith_def)
  then have "twins (agrees valid table healthy sequence) gm' gs'"
    using assms(1) del(3) gs'(2) by (simp add: twins_def RecordRejected_def)
  ultimately show thesis using that del(4) by (simp add: RecordRejected_def)
qed

lemma two_phase_agrees:
  assumes twins: "twins (agrees valid table healthy sequence) gm gs"
    and room: "sequence (repositoryState gs) < max_rowid" and clean: "stored_packet p = p"
    and answer: "\<And>rc. chain_answer (memory_service b keys chain h) p (chainState gm) = Inr rc \<Longrightarrow>
        stored_receipt rc = rc \<and> (\<forall>r \<in> set (records (repositoryState gm)). \<not> has_tx (txHash rc) r)"
    and run: "two_phase (memory_service b keys chain h) ms p gm = (res, gm')"
  obtains gs' where "two_phase (sqlite_service sq b keys chain h) ms p gs = (res, gs')"
    "twins (agrees valid table healthy sequence) gm' gs'"
    "sequence (repositoryState gs') = sequence (repositoryState gs) + 1"
proof -
  let ?i = "sequence (repositoryState gs) + 1"
  from twins have same: "agrees valid table healthy sequence (repositoryState gm) (repositoryState gs)"
    and chain: "chainState gs = chainState gm" by (simp_all add: twins_def)
  obtain m1 db1 where save: "mem_Save p (repositoryState gm) = (?i, m1)" "sq_Save sq p (repositoryState gs) = (Inr ?i, db1)"
      "agrees valid table healthy sequence m1 db1" "sequence db1 = ?i"
      "records m1 = records (repositoryState gm) @ [new_record ?i p]" "?i \<notin> set (ids (records (repositoryState gm)))"
    by (rule save_agrees [OF same room clean])
  obtain sub c where sub: "SubmitHash chain (hashHex p) (deviceId p) (timestamp p) (chainState gm) = (sub, c)" by fastforce
  let ?gm = "gm\<lparr>repositoryState := m1, chainState := c\<rparr>" and ?gs = "gs\<lparr>repositoryState := db1, chainState := c\<rparr>"
  have twins1: "twins (agrees valid table healthy sequence) ?gm ?gs"
    using twins save(3) by (simp add: twins_def)
  show thesis
  proof (cases sub)
    case (Inl e)
    let ?msg = "''blockchain submit failed: '' @ exn_text e" and ?r = "default_ingest_result\<lparr> resultRecordId := ?i \<rparr>"
    have "fail_after_save (memory_service b keys chain h) ms ?i ?msg ?r ?gm = (res, gm')"
      using run save(1) sub Inl by (simp add: two_phase_def in_memory_repository_def)
    then obtain gs' where "fail_after_save (sqlite_service sq b keys chain h) ms ?i ?msg ?r ?gs = (res, gs')"
        "twins (agrees valid table healthy sequence) gm' gs'" "sequence (repositoryState gs') = sequence (repositoryState ?gs)"
      by (rule fail_agrees [OF twins1])
    moreover from this have "two_phase (sqlite_service sq b keys chain h) ms p gs = (res, gs')"
      using save(2) sub Inl chain by (simp add: two_phase_def sqlite_service_def sqlite_repository_def)
    ultimately show thesis using that save(4) by simp
  next
    case (Inr rc)
    with answer [of rc] sub have rc: "stored_receipt rc = rc" "\<forall>r \<in> set (records (repositoryState gm)). \<not> has_tx (txHash rc) r"
      by (simp_all add: chain_answer_def)
    have "receipt r = None" if "r \<in> set (records m1)" "recordId r = ?i" for r
      using that save(5,6) by (force simp: ids_def)
    moreover have "\<not> has_tx (txHash rc) r" if "r \<in> set (records m1)" for r
      using that save(5) rc(2) by auto
    ultimately obtain a m2 db2 where
      att: "mem_AttachReceipt ?i rc m1 = (a, m2)" "sq_AttachReceipt sq ?i rc db1 = (Inr a, db2)"
      "agrees valid table healthy sequence m2 db2" "sequence db2 = sequence db1"
      using attach_agrees [OF save(3) rc(1), of ?i] by metis
    have "a" using mem.attach_ok [of m1 ?i rc a m2] save(3,5) att(1) by (simp add: agrees_def in_memory_repository_def)
    let ?gs' = "RecordAccepted ms (gs\<lparr>chainState := c, repositoryState := db2\<rparr>)"
    have gm': "gm' = RecordAccepted ms (gm\<lparr>chainState := c, repositoryState := m2\<rparr>)"
      using run save(1) sub Inr att(1) \<open>a\<close> by (auto simp: two_phase_def in_memory_repository_def finishWith_def)
    have "two_phase (sqlite_service sq b keys chain h) ms p gs = (res, ?gs')"
      using run save(1,2) sub Inr att(1,2) \<open>a\<close> chain
      by (simp add: two_phase_def sqlite_service_def sqlite_repository_def in_memory_repository_def finishWith_def)
    moreover have "twins (agrees valid table healthy sequence) gm' ?gs'"
      using twins att(3) by (simp add: twins_def gm' RecordAccepted_def)
    ultimately show thesis using that att(4) save(4) by (simp add: RecordAccepted_def)
  qed
qed

lemma Ingest_agrees:
  assumes twins: "twins (agrees valid table healthy sequence) gm gs"
    and room: "sequence (repositoryState gs) < max_rowid" and clean: "stored_packet p = p"
    and run: "Ingest (memory_service b keys chain h) ms p gm = (res, gm')"
    and receipts: "clean_receipts (records (repositoryState gm'))"
  obtains gs' where "Ingest (sqlite_service sq b keys chain h) ms p gs = (res, gs')"
    "twins (agrees valid table healthy sequence) gm' gs'"
    "unat (sequence (repositoryState gs')) \<le> Suc (unat (sequence (repositoryState gs)))"
proof (cases "packet_ok (memory_service b keys chain h) p")
  case False
  then have bad: "\<not> packet_ok (sqlite_service sq b keys chain h) p" by (simp add: packet_ok_sqlite)
  from Ingest_rejects [OF False, of ms gm] have gm': "gm' = RecordRejected ms gm" using run by auto
  have "Ingest (sqlite_service sq b keys chain h) ms p gs = (res, RecordRejected ms gs)"
    using bad run False unfolding Ingest_def packet_ok_def
    by (auto simp: sqlite_service_def finishWith_def split: if_splits)
  moreover have "twins (agrees valid table healthy sequence) gm' (RecordRejected ms gs)"
    using twins by (simp add: gm' twins_def RecordRejected_def)
  ultimately show thesis using that by (simp add: RecordRejected_def)
next
  case True
  from twins have same: "agrees valid table healthy sequence (repositoryState gm) (repositoryState gs)" by (simp add: twins_def)
  have answer: "stored_receipt rc = rc \<and> (\<forall>r \<in> set (records (repositoryState gm)). \<not> has_tx (txHash rc) r)"
    if "chain_answer (memory_service b keys chain h) p (chainState gm) = Inr rc" for rc
  proof -
    have inv: "mem_inv (repositoryState gm)" using same by (simp add: agrees_def)
    note mroom = agrees_room [OF same room]
    from mem_client.Ingest_exact [OF inv mroom run] True that obtain r where
      r: "res = Inr r" "accepted r" "resultReceipt r = Some rc" 
        "records (repositoryState gm') = records (repositoryState gm) @
          [\<lparr> recordId = resultRecordId r, packet = p, receipt = Some rc \<rparr>]"
      using two_phase_memory_result [of b keys chain h ms p gm] run True
      by (auto simp: Ingest_two_phase)
    with receipts have "txHash rc \<notin> set (tx_hashes (records (repositoryState gm)))" "stored_receipt rc = rc"
      by (simp_all add: clean_receipts_def)
    with has_tx_hashes show ?thesis by blast
  qed
  have tp: "two_phase (memory_service b keys chain h) ms p gm = (res, gm')" using run True by (simp add: Ingest_two_phase)
  have ok: "packet_ok (sqlite_service sq b keys chain h) p" using True by (simp add: packet_ok_sqlite)
  obtain gs' where gs': "two_phase (sqlite_service sq b keys chain h) ms p gs = (res, gs')"
    "twins (agrees valid table healthy sequence) gm' gs'" "sequence (repositoryState gs') = sequence (repositoryState gs) + 1"
    by (rule two_phase_agrees [OF twins room clean answer tp])
  moreover have "unat (sequence (repositoryState gs) + 1) = Suc (unat (sequence (repositoryState gs)))"
    by (rule below_max_rowid [OF room])
  ultimately show thesis using that ok by (simp add: Ingest_two_phase)
qed

text \<open>A sequence of ingests.\<close>

lemma gateway_run_agrees:
  assumes "gateway_run (memory_service b keys chain h) calls gm = (results, gm')"
    and "twins (agrees valid table healthy sequence) gm gs"
    and "unat (sequence (repositoryState gs)) + length calls \<le> unat max_rowid"
    and "\<forall>call \<in> set calls. stored_packet (snd call) = snd call"
    and "clean_receipts (records (repositoryState gm) @ ledger calls results)"
  shows "\<exists>gs'. gateway_run (sqlite_service sq b keys chain h) calls gs = (results, gs') \<and>
    twins (agrees valid table healthy sequence) gm' gs'"
  using assms
proof (induction calls arbitrary: gm gs results)
  case (Cons call calls)
  obtain res gm1 where one: "Ingest (memory_service b keys chain h) (fst call) (snd call) gm = (res, gm1)" by fastforce
  obtain rs gm2 where rest: "gateway_run (memory_service b keys chain h) calls gm1 = (rs, gm2)" by fastforce
  with one Cons.prems(1) have eq: "results = res # rs" "gm2 = gm'" by auto
  have room: "sequence (repositoryState gs) < max_rowid" using Cons.prems(3) by (simp add: word_less_nat_alt)
  have inv: "mem_inv (repositoryState gm)" using Cons.prems(2) by (simp add: twins_def agrees_def)
  have mroom: "mem_room (repositoryState gm)"
    by (rule agrees_room [of valid table healthy sequence, OF _ room]) (use Cons.prems(2) in \<open>simp add: twins_def\<close>)
  from mem_client.Ingest_exact [OF inv mroom one]
  have step: "records (repositoryState gm1) = records (repositoryState gm) @ ledger_entry call res"
    by (auto simp: ledger_entry_def option.map_ident)
  then have all: "clean_receipts (records (repositoryState gm1) @ ledger calls rs)"
    using Cons.prems(5) by (simp add: eq(1))
  obtain gs1 where gs1: "Ingest (sqlite_service sq b keys chain h) (fst call) (snd call) gs = (res, gs1)"
    "twins (agrees valid table healthy sequence) gm1 gs1"
    "unat (sequence (repositoryState gs1)) \<le> Suc (unat (sequence (repositoryState gs)))"
    by (rule Ingest_agrees [OF Cons.prems(2) room _ one clean_receipts_prefix [OF all]]) (use Cons.prems(4) in simp_all)
  from Cons.IH [OF rest [unfolded eq(2)] gs1(2) _ _ all] gs1(1,3) Cons.prems(3,4)
  show ?case by (auto simp: eq(1) split: prod.split)
qed simp

text \<open>What can be read afterwards.\<close>

lemma FindByTransaction_agrees:
  assumes same: "agrees valid table healthy sequence m db" and t: "c_str t = t"
  shows "FindByTransaction (sqlite_repository sq) t db = FindByTransaction in_memory_repository t m"
proof -
  from same have v: "valid db" "healthy db" "mem_inv m" "tx_ok m" "records m = map RowToRecord (table db)"
    by (simp_all add: agrees_def)
  obtain rows where rows: "queryRows sq (SelectTransaction t) db = (rows, SQLITE_DONE)"
    using answers [OF v(1,2), of "SelectTransaction t"] by (cases "queryRows sq (SelectTransaction t) db") simp
  have "\<exists>found. FindByTransaction (sqlite_repository sq) t db = Inr found"
    by (cases rows) (simp_all add: sqlite_repository_def sq_FindByTransaction_def first_row_def prepared_ok [OF v(2)]
        statements t rows ThrowIfSqlError_def)
  then obtain found where found: "FindByTransaction (sqlite_repository sq) t db = Inr found" by blast
  have "found = find (has_tx t) (records m)"
  proof (cases "find (has_tx t) (records m)")
    case None
    then have "\<forall>r \<in> set (records m). \<not> has_tx t r" by (auto simp: find_None_iff)
    with transaction_record [OF v(1) found] v(5) t have "found = None" by (auto split: option.splits)
    with None show ?thesis by simp
  next
    case (Some r)
    then have "r \<in> set (map RowToRecord (table db))" "has_tx t r" using v(5) by (auto simp: find_Some_iff)
    with transaction_of_stored [OF v(1) this t found] Some show ?thesis by simp
  qed
  then show ?thesis using found mem_FindByTransaction_eq [OF v(3,4)] by (simp add: in_memory_repository_def)
qed

lemma FindByBatch_agrees:
  assumes same: "agrees valid table healthy sequence m db" and c: "c_str c = c" "c \<noteq> []"
  obtains qs where "FindByBatch (sqlite_repository sq) c db = Inr qs"
    "FindByBatch in_memory_repository c m = Inr (of_batch c (records m))" "mset qs = mset (of_batch c (records m))"
    "sorted_wrt not_later (records m) \<Longrightarrow> qs = of_batch c (records m)"
proof -
  from same have v: "valid db" "healthy db" "mem_inv m" "records m = map RowToRecord (table db)"
    by (simp_all add: agrees_def)
  obtain rows where rows: "queryRows sq (SelectBatch c) db = (rows, SQLITE_DONE)"
    using answers [OF v(1,2), of "SelectBatch c"] by (cases "queryRows sq (SelectBatch c) db") simp
  have qs: "FindByBatch (sqlite_repository sq) c db = Inr (map RowToRecord rows)"
    by (simp add: sqlite_repository_def sq_FindByBatch_def prepared_ok [OF v(2)] statements c rows ThrowIfSqlError_def)
  with batch_of [OF v(1) qs] c v(4) have "mset (map RowToRecord rows) = mset (of_batch c (records m))" by simp
  moreover have "FindByBatch in_memory_repository c m = Inr (of_batch c (records m))"
    using v(3) c(2) by (simp add: in_memory_repository_def mem_FindByBatch_eq)
  moreover have "map RowToRecord rows = of_batch c (records m)" if "sorted_wrt not_later (records m)"
  proof -
    have "rows = in_order (filter (\<lambda>r. colBatch r = Some c) (table db))"
      using query_rows [OF v(1) rows] by (simp add: sqlite_codes)
    also have "\<dots> = filter (\<lambda>r. colBatch r = Some c) (table db)"
      using that v(4) by (intro in_order_filter) simp
    finally show ?thesis using v(4) of_batch_rows [OF c(2)] by simp
  qed
  ultimately show thesis using that qs by blast
qed

lemma LatestByDevice_agrees:
  assumes same: "agrees valid table healthy sequence m db" and d: "c_str d = d" and "sorted_wrt not_later (records m)"
  shows "LatestByDevice (sqlite_repository sq) d db = LatestByDevice in_memory_repository d m"
proof -
  from same have v: "valid db" "healthy db" "mem_inv m" "records m = map RowToRecord (table db)"
    by (simp_all add: agrees_def)
  let ?rows = "filter (\<lambda>r. colDevice r = d) (table db)"
  obtain rows where rows: "queryRows sq (SelectLatest d) db = (rows, SQLITE_DONE)"
    using answers [OF v(1,2), of "SelectLatest d"] by (cases "queryRows sq (SelectLatest d) db") simp
  then have "rows = take 1 (rev (in_order ?rows))" using query_rows [OF v(1) rows] by (simp add: sqlite_codes)
  also have "in_order ?rows = ?rows" using assms(3) v(4) by (intro in_order_filter) simp
  finally have "rows = take 1 (rev ?rows)" .
  then have "LatestByDevice (sqlite_repository sq) d db = Inr (if ?rows = [] then None else Some (RowToRecord (last ?rows)))"
    using rows by (cases ?rows rule: rev_cases)
      (simp_all add: sqlite_repository_def sq_LatestByDevice_def first_row_def prepared_ok [OF v(2)] statements d ThrowIfSqlError_def)
  moreover have "of_device d (records m) = map RowToRecord ?rows" by (simp add: v(4) of_device_rows)
  ultimately show ?thesis
    by (simp add: in_memory_repository_def mem_LatestByDevice_eq [OF v(3)] last_map)
qed

lemma GetMetricsSnapshot_agrees:
  assumes "twins (agrees valid table healthy sequence) gm gs"
  shows "GetMetricsSnapshot (sqlite_service sq b keys chain h) gs = GetMetricsSnapshot (memory_service b keys chain h) gm"
proof -
  let ?db = "repositoryState gs"
  from assms have v: "valid ?db" "healthy ?db" "records (repositoryState gm) = map RowToRecord (table ?db)"
    by (simp_all add: twins_def agrees_def)
  obtain n where "countStep sq ?db = (SQLITE_ROW, n)" using answers [OF v(1,2)] by (cases "countStep sq ?db") simp
  moreover from count_rows [OF v(1) this] have "n = of_nat (length (table ?db))" by (simp add: sqlite_codes)
  ultimately have "Size (sqlite_repository sq) ?db = Size in_memory_repository (repositoryState gm)"
    using v(3) accepts [OF v(2)]
    by (simp add: sqlite_repository_def in_memory_repository_def sq_Size_def mem_Size_def PrepareOrThrow_def ThrowIfSqlError_def)
  with assms show ?thesis by (simp add: GetMetricsSnapshot_def sqlite_service_def twins_def split: sum.split)
qed

lemma new_gateways_agree:
  assumes "valid db0" "healthy db0" "table db0 = []" "sequence db0 = 0"
  shows "twins (agrees valid table healthy sequence) (new_gateway mem_empty c0) (new_gateway db0 c0)"
  using assms mem_inv_empty tx_ok_empty by (simp add: twins_def new_gateway_def agrees_def mem_empty_def)

lemma interchangeable:
  assumes "valid db0" "healthy db0" "table db0 = []" "sequence db0 = 0"
    and "length calls < 2 ^ 63" and "\<forall>call \<in> set calls. stored_packet (snd call) = snd call"
    and "gateway_run (memory_service b keys chain h) calls (new_gateway mem_empty c0) = (results, gm)"
    and "clean_receipts (records (repositoryState gm))"
  shows "\<exists>gs. gateway_run (sqlite_service sq b keys chain h) calls (new_gateway db0 c0) = (results, gs)
    \<and> map RowToRecord (table (repositoryState gs)) = records (repositoryState gm) \<and> chainState gs = chainState gm
    \<and> GetMetricsSnapshot (sqlite_service sq b keys chain h) gs = GetMetricsSnapshot (memory_service b keys chain h) gm
    \<and> (\<forall>t. c_str t = t \<longrightarrow> FindByTransaction (sqlite_repository sq) t (repositoryState gs) =
         FindByTransaction in_memory_repository t (repositoryState gm))
    \<and> (\<forall>c. c_str c = c \<and> c \<noteq> [] \<longrightarrow> (\<exists>qs rs. FindByBatch (sqlite_repository sq) c (repositoryState gs) = Inr qs \<and>
         FindByBatch in_memory_repository c (repositoryState gm) = Inr rs \<and> mset qs = mset rs \<and>
         (sorted_wrt not_later (records (repositoryState gm)) \<longrightarrow> qs = rs)))
    \<and> (\<forall>d. c_str d = d \<and> sorted_wrt not_later (records (repositoryState gm)) \<longrightarrow>
         LatestByDevice (sqlite_repository sq) d (repositoryState gs) = LatestByDevice in_memory_repository d (repositoryState gm))"
proof -
  have "unat (sequence (repositoryState (new_gateway db0 c0))) + length calls \<le> unat max_rowid"
    using assms(4,5) by (simp add: new_gateway_def max_rowid_def)
  moreover have "records (repositoryState gm) = records (repositoryState (new_gateway mem_empty c0)) @ ledger calls results"
    using ledger_run [OF assms(7)] mem_inv_empty assms(5) by (simp add: new_gateway_def mem_empty_def)
  ultimately obtain gs where gs: "gateway_run (sqlite_service sq b keys chain h) calls (new_gateway db0 c0) = (results, gs)"
      "twins (agrees valid table healthy sequence) gm gs"
    using gateway_run_agrees [OF assms(7) new_gateways_agree [OF assms(1-4)] _ assms(6)] assms(8) by metis
  then have same: "agrees valid table healthy sequence (repositoryState gm) (repositoryState gs)" by (simp add: twins_def)
  show ?thesis
  proof (intro exI [of _ gs] conjI allI impI)
    show "gateway_run (sqlite_service sq b keys chain h) calls (new_gateway db0 c0) = (results, gs)" by (rule gs)
    show "map RowToRecord (table (repositoryState gs)) = records (repositoryState gm)" using same by (simp add: agrees_def)
    show "chainState gs = chainState gm" using gs(2) by (simp add: twins_def)
    show "GetMetricsSnapshot (sqlite_service sq b keys chain h) gs = GetMetricsSnapshot (memory_service b keys chain h) gm"
      by (rule GetMetricsSnapshot_agrees [OF gs(2)])
    show "FindByTransaction (sqlite_repository sq) t (repositoryState gs) = FindByTransaction in_memory_repository t (repositoryState gm)"
      if "c_str t = t" for t using FindByTransaction_agrees [OF same that] .
    show "\<exists>qs rs. FindByBatch (sqlite_repository sq) c (repositoryState gs) = Inr qs \<and>
        FindByBatch in_memory_repository c (repositoryState gm) = Inr rs \<and> mset qs = mset rs \<and>
        (sorted_wrt not_later (records (repositoryState gm)) \<longrightarrow> qs = rs)" if "c_str c = c \<and> c \<noteq> []" for c
      using FindByBatch_agrees [OF same conjunct1 [OF that] conjunct2 [OF that]] by metis
    show "LatestByDevice (sqlite_repository sq) d (repositoryState gs) = LatestByDevice in_memory_repository d (repositoryState gm)"
      if "c_str d = d \<and> sorted_wrt not_later (records (repositoryState gm))" for d
      using LatestByDevice_agrees [OF same conjunct1 [OF that] conjunct2 [OF that]] .
  qed
qed

end

interpretation healthy_ref: healthy_engine ref_engine ref_valid refRows "\<lambda>db. \<not> refFailing db" refSequence
proof
  fix db w status db'
  assume db: "ref_valid db" "\<not> refFailing db" and step: "writeStep ref_engine w db = (status, db')"
  show "status = SQLITE_DONE \<and> \<not> refFailing db' \<and> lastInsertRowid ref_engine db' = refSequence db + 1 \<and>
      refSequence db' = refSequence db + 1" if "refSequence db < max_rowid" "target w = None"
    using that db step by (cases w) (auto simp: ref_engine_simps split: if_splits)
  show "status = SQLITE_DONE \<and> \<not> refFailing db' \<and> refSequence db' = refSequence db"
    if w: "target w = Some i" and u: "unique_txs (changed w (refRows db))" for i
  proof (cases w)
    case (UpdateReceipt tx h s j)
    have "rowId r = i" if r: "r \<in> set (refRows db)" "colTx r = Some tx" and q: "q \<in> set (refRows db)" "rowId q = i" for q r
    proof (rule ccontr)
      assume ne: "rowId r \<noteq> i"
      let ?q = "q\<lparr>colTx := Some tx, colHeight := Some h, colSubmitted := Some s\<rparr>"
      have "r \<in> set (changed w (refRows db))" "?q \<in> set (changed w (refRows db))"
        using r q ne w by (auto simp: UpdateReceipt image_iff)
      with u r(2) have "r = ?q" unfolding unique_txs_def by force
      with ne q(2) show False by simp
    qed
    then show ?thesis using db step w by (auto simp: UpdateReceipt ref_engine_simps split: if_splits)
  qed (use db step w in \<open>auto simp: ref_engine_simps\<close>)
qed (auto simp: ref_engine_simps)


section \<open>The two gateways\<close>


text \<open>A packet accepted by both.\<close>

lemma c_str_lower_hex: "list_all lower_hex s \<Longrightarrow> c_str s = s"
proof -
  have "\<not> lower_hex (CHR 0x00)" by code_simp
  then show "list_all lower_hex s \<Longrightarrow> c_str s = s" by (auto simp: c_str_def takeWhile_eq_all_conv list_all_iff)
qed

lemma demo_packet_clean: "stored_packet demo_packet = demo_packet"
proof -
  have "c_str (h @ '':key'') = h @ '':key''" if "list_all lower_hex h" for h
    using c_str_lower_hex [OF that] by (simp add: c_str_def takeWhile_append)
  then show ?thesis
    using c_str_lower_hex [OF Sha256Hex_lower_hex]
    by (simp add: stored_packet_def demo_packet_def Let_def Sha256Hex_lower_hex) (simp add: c_str_def)
qed

lemma demo_hash_sized: "sha256_sized demo_hash"
  by (simp add: demo_hash_def)

lemma demo_memory_run:
  "\<exists>r g rc. gateway_run demo_service [(2, demo_packet)] (new_gateway mem_empty mock_counter) = ([Inr r], g) \<and> accepted r
    \<and> records (repositoryState g) = [\<lparr> recordId = 1, packet = demo_packet, receipt = Some rc \<rparr>] \<and> stored_receipt rc = rc"
proof -
  obtain rc where rc: "mock_SubmitHash demo_hash 0 (hashHex demo_packet) (deviceId demo_packet) (timestamp demo_packet) mock_counter
      = (Inr rc, mock_counter + 1)" "list_all lower_hex (txHash rc)"
    using mock_SubmitHash_receipt [of demo_hash 0] demo_hash_sized by blast
  have "submittedAtIso8601 rc = CurrentUtcIso8601 0" using rc(1) by (auto simp: mock_SubmitHash_def Let_def)
  moreover have "c_str (CurrentUtcIso8601 0) = CurrentUtcIso8601 0" by code_simp
  ultimately have "stored_receipt rc = rc" using c_str_lower_hex [OF rc(2)] by (simp add: stored_receipt_def)
  moreover have "\<exists>r g. Ingest demo_service 2 demo_packet (new_gateway mem_empty mock_counter) = (Inr r, g) \<and> accepted r \<and>
      records (repositoryState g) = [\<lparr> recordId = 1, packet = demo_packet, receipt = Some rc \<rparr>]"
    unfolding Ingest_two_phase [OF demo_packet_ok]
    using rc(1) by (simp add: two_phase_def demo_service_def in_memory_repository_def mem_Save_def Let_def
        mem_empty_def mem_AttachReceipt_def mock_client_def new_gateway_def finish_simps new_record_def)
  then obtain r g where "Ingest demo_service 2 demo_packet (new_gateway mem_empty mock_counter) = (Inr r, g)" "accepted r"
      "records (repositoryState g) = [\<lparr> recordId = 1, packet = demo_packet, receipt = Some rc \<rparr>]" by blast
  ultimately show ?thesis by simp
qed


end
