(* ===== verification/Server_Signals.thy ===== *)
theory Server_Signals
  imports Main_Program
begin

text \<open>
  Signals that do not find the server waiting. The handler of \<^verbatim>\<open>src/main.cpp\<close> calls
  \<^verbatim>\<open>HttpServer::Stop\<close>, which takes the mutex that a broadcast holds on the same thread, and
  sets the flag that \<^verbatim>\<open>Start\<close> has not set yet. Wherever else a signal can come in the handling of a
  client, the rest of the handler does not look at what \<^verbatim>\<open>Stop\<close> changes, so that it is one of
  the steps of the loop: before the handler went on after reading, or after it.
\<close>

section \<open>During a broadcast\<close>

lemma SendAll_others:
  "x \<noteq> fd \<Longrightarrow> delivered (snd (SendAll fd payload os)) x = delivered os x"
  by (simp add: SendAll_def split: prod.splits)

text \<open>Up to any point a broadcast has touched its subscribers only, and closed each at most once.\<close>

lemma broadcast_until_others:
  assumes "distinct clients" and "set clients \<subseteq> openFds os" and "os' = broadcast_until n m payload clients os"
  shows "strayCloses os' = strayCloses os" "openFds os - set clients \<subseteq> openFds os'" "openFds os' \<subseteq> openFds os"
    "x \<notin> set clients \<Longrightarrow> delivered os' x = delivered os x"
proof -
  obtain active os1 where run: "BroadcastMessage payload (take n clients) os = (active, os1)" by fastforce
  have "distinct (take n clients)" "set (take n clients) \<subseteq> openFds os"
    using assms(1,2) set_take_subset [of n clients] by auto
  then have B: "broadcast_to (BuildWebSocketFrame payload) (take n clients) active os os1"
    using run by (intro broadcast_loop_to) (simp_all add: BroadcastMessage_def)
  have os': "openFds os' = openFds os1" "strayCloses os' = strayCloses os1"
    by (simp_all add: assms(3) broadcast_until_def run split: list.split)
  from B have "strayCloses os1 = strayCloses os" "openFds os1 = openFds os - (set (take n clients) - set active)"
    by (simp_all add: broadcast_to_def)
  with os' set_take_subset [of n clients] show "strayCloses os' = strayCloses os" "openFds os - set clients \<subseteq> openFds os'"
    "openFds os' \<subseteq> openFds os" by auto
  show "delivered os' x = delivered os x" if x: "x \<notin> set clients"
  proof -
    have "subseq active (take n clients)" using B by (simp add: broadcast_to_def)
    then have "x \<notin> set (take n clients)" "x \<notin> set active"
      using x subseq_set [of active] set_take_subset [of n clients] by auto
    then have "delivered os1 x = delivered os x" using B by (simp add: broadcast_to_def got_frame_def)
    moreover have "delivered os' x = delivered os1 x"
    proof (cases "drop n clients")
      case (Cons fd rest)
      then have "fd \<in> set clients" using in_set_dropD [of fd n clients] by simp
      with x have "x \<noteq> fd" by blast
      then show ?thesis by (simp add: assms(3) broadcast_until_def run Cons SendAll_others)
    qed (simp only: assms(3) broadcast_until_def run snd_conv Let_def list.case)
    ultimately show ?thesis by simp
  qed
qed

lemma cut_broadcast_others:
  assumes "server_inv {fd} srv" and "os' = osState (cut_broadcast n m p r srv)"
  shows "strayCloses os' = 0" "fd \<in> openFds os'" "0 \<le> listenFd srv \<Longrightarrow> listenFd srv \<in> openFds os'"
    "openFds os' \<subseteq> openFds (osState srv)" "delivered os' fd = delivered (osState srv) fd"
proof -
  define clients where "clients = (if accepted r then telemetryWsClients srv else alertWsClients srv)"
  obtain payload where os': "os' = broadcast_until n m payload clients (osState srv)"
    by (cases "accepted r") (auto simp: assms(2) cut_broadcast_def clients_def)
  have inv: "distinct clients" "set clients \<subseteq> openFds (osState srv)" "fd \<notin> set clients" "fd \<in> openFds (osState srv)"
    "strayCloses (osState srv) = 0" "listening_fds srv \<subseteq> openFds (osState srv) - set clients"
    using assms(1) by (auto simp: server_inv_def fds_inv_def clients_def)
  note B = broadcast_until_others [OF inv(1,2) os']
  show "strayCloses os' = 0" "fd \<in> openFds os'" "openFds os' \<subseteq> openFds (osState srv)"
    "delivered os' fd = delivered (osState srv) fd"
    using B inv(3-5) by auto
  show "0 \<le> listenFd srv \<Longrightarrow> listenFd srv \<in> openFds os'" using inv(6) B(2) by (auto simp: listening_fds_def)
qed



section \<open>During the start\<close>

text \<open>
  A signal before \<^verbatim>\<open>socket\<close> is lost, one before \<^verbatim>\<open>bind\<close> or \<^verbatim>\<open>listen\<close> makes that call fail,
  and one just before the loop is undone by \<^verbatim>\<open>running_ = true\<close>: the loop then spins on a closed
  listener, serves nobody, and nothing but another signal ends it.
\<close>

lemma signal_while_starting:
  assumes "0 \<le> socketAnswer k" "0 \<le> bindAnswer k" "0 \<le> listenAnswer k"
  shows "start_listening (Some BeforeSocket) k (new_server g) = start_listening None k (new_server g)
    \<and> fst (start_listening (Some BeforeBind) k (new_server g)) = Inl (StdException ''failed to bind socket'')
    \<and> fst (start_listening (Some BeforeListen) k (new_server g)) = Inl (StdException ''failed to listen'')
    \<and> (\<exists>srv. start_listening (Some BeforeLoop) k (new_server g) = (Inr (), srv) \<and> running srv \<and> openFds (osState srv) = {}
        \<and> (\<forall>q. server_step svc (Accepting, srv) q \<longrightarrow> q = (Accepting, srv) \<or> q = (Accepting, Stop srv)))"
proof -
  have "q = (Accepting, srv) \<or> q = (Accepting, Stop srv)"
    if "server_step svc (Accepting, srv) q" "running srv" "listenFd srv < 0" for q srv
    using that by (auto elim: server_step_elim)
  note loop = this
  define opened where "opened = (new_server g)\<lparr>listenFd := socketAnswer k, osState := open_fd (socketAnswer k) [] (osState (new_server g))\<rparr>"
  let ?late = "(Stop opened)\<lparr>running := True\<rparr>"
  have "server_inv {} opened" unfolding opened_def by (rule server_inv_opened [OF assms(1) refl])
  note late = Stop_closes [OF this]
  have run: "start_listening (Some BeforeLoop) k (new_server g) = (Inr (), ?late)"
    using assms by (simp add: start_listening_def Let_def opened_def not_less)
  have "listenFd (Stop opened) < 0" using late(6) by simp
  then have "start_listening (Some BeforeSocket) k (new_server g) = start_listening None k (new_server g)"
    "fst (start_listening (Some BeforeBind) k (new_server g)) = Inl (StdException ''failed to bind socket'')"
    "fst (start_listening (Some BeforeListen) k (new_server g)) = Inl (StdException ''failed to listen'')"
    using assms by (simp_all add: start_listening_def Let_def Stop_new_server opened_def not_less)
  moreover have "running ?late \<and> openFds (osState ?late) = {} \<and>
      (\<forall>q. server_step svc (Accepting, ?late) q \<longrightarrow> q = (Accepting, ?late) \<or> q = (Accepting, Stop ?late))"
    using loop [of ?late] late(1) \<open>listenFd (Stop opened) < 0\<close> by simp
  ultimately show ?thesis using run by blast
qed

end
