(* ===== verification/Test_Programs.thy ===== *)
theory Test_Programs
  imports Sqlite_Gateway
begin

text \<open>
  The programs of \<^verbatim>\<open>src/backend-cpp/tests\<close>, against the model: their test doubles, and for each
  test function a lemma that its assertions hold, for every build of the hash with 64 digits, every
  clock and every processing time. The SQLite test runs over the reference engine.
\<close>

section \<open>\<^verbatim>\<open>test_ingest_service.cpp\<close>, without OpenSSL\<close>

definition BuildSignature :: "string \<Rightarrow> string \<Rightarrow> string" where
  "BuildSignature hash key = hash @ '':'' @ key"

definition BuildPublicKeys :: "string \<Rightarrow> public_key_map" where
  "BuildPublicKeys pem = [''pubkey-1'' \<mapsto> pem]"

definition MakeValidPacket :: "hash_build \<Rightarrow> telemetry_packet" where
  "MakeValidPacket h =
     (let p = default_packet\<lparr> deviceId := ''stm32-node-1'', timestamp := 1700001000,
            telemetryJson := ''{\"temperature\":24.5,\"humidity\":62.3}'', pubKeyId := ''pubkey-1'', transport := ''wifi'',
            batchCode := ''BATCH-2026-0001'' \<rparr>;
          hash = Sha256Hex h (canonical p)
      in p\<lparr> hashHex := hash, signature := BuildSignature hash (pubKeyId p) \<rparr>)"

definition ThrowingBlockchainClient :: "unit blockchain_client" where
  "ThrowingBlockchainClient = \<lparr> SubmitHash = (\<lambda>_ _ _ s. (Inl (StdException ''simulated blockchain outage''), s)) \<rparr>"

record failing_repository =
  hasRecord :: bool
  deleteCalled :: bool

definition AttachReceiptFailingRepository :: "bool \<Rightarrow> failing_repository telemetry_repository" where
  "AttachReceiptFailingRepository throwOnDelete = \<lparr>
     Save = (\<lambda>_ s. (Inr 1, s\<lparr> hasRecord := True \<rparr>)),
     AttachReceipt = (\<lambda>_ _ s. (Inr False, s)),
     Delete = (\<lambda>_ s. let s = s\<lparr> deleteCalled := True \<rparr>
                in if throwOnDelete then (Inl (StdException ''simulated delete failure''), s)
                   else (Inr True, s\<lparr> hasRecord := False \<rparr>)),
     LatestByDevice = (\<lambda>_ _. Inr None), FindByTransaction = (\<lambda>_ _. Inr None), FindByBatch = (\<lambda>_ _. Inr []),
     Size = (\<lambda>s. Inr (if hasRecord s then 1 else 0)) \<rparr>"

text \<open>The service of a test over a repository and a chain client.\<close>

definition test_service :: "hash_build \<Rightarrow> string \<Rightarrow> 'r telemetry_repository \<Rightarrow> 'c blockchain_client \<Rightarrow> ('r, 'c) ingest_service" where
  "test_service h pem repo chain = \<lparr> repository = repo, signatureVerifier = Verify (PlainVerify :: unit verify_build) (BuildPublicKeys pem),
     blockchainClient = chain, hashBuild = h \<rparr>"

lemma MakeValidPacket_simps:
  "deviceId (MakeValidPacket h) = ''stm32-node-1''" "timestamp (MakeValidPacket h) = 1700001000"
  "telemetryJson (MakeValidPacket h) = ''{\"temperature\":24.5,\"humidity\":62.3}''" "pubKeyId (MakeValidPacket h) = ''pubkey-1''"
  "hashHex (MakeValidPacket h) = Sha256Hex h (canonical (MakeValidPacket h))"
  "signature (MakeValidPacket h) = hashHex (MakeValidPacket h) @ '':pubkey-1''"
  by (simp_all add: MakeValidPacket_def Let_def canonical_def BuildSignature_def)

lemma MakeValidPacket_ok:
  assumes "sha256_sized h"
  shows "packet_ok (test_service h pem repo chain) (MakeValidPacket h)"
proof -
  have "IsHex64 (hashHex (MakeValidPacket h))" using IsHex64_Sha256Hex [OF assms] by (simp only: MakeValidPacket_simps(5))
  moreover from this have "16 \<le> length (signature (MakeValidPacket h))" by (simp add: MakeValidPacket_simps(6) IsHex64_def)
  ultimately show ?thesis
    by (simp add: packet_ok_def test_service_def Verify_iff BuildPublicKeys_def MakeValidPacket_simps(1-4,6))
      (simp add: MakeValidPacket_simps(5))
qed


lemmas test_run_simps = two_phase_def test_service_def in_memory_repository_def mem_Save_def mem_AttachReceipt_def mem_Delete_def
  mem_Size_def mem_empty_def new_gateway_def fail_after_save_def rollbackBestEffort_def finish_simps exn_text_def Let_def
  GetMetricsSnapshot_def

lemma TestAcceptsValidPacket:
  assumes "sha256_sized h" and "Ingest (test_service h pem in_memory_repository (mock_client h now)) ms (MakeValidPacket h)
      (new_gateway mem_empty mock_counter) = (Inr result, g)"
  shows "accepted result \<and> resultRecordId result = 1 \<and> resultReceipt result \<noteq> None \<and> mem_Size (repositoryState g) = 1 \<and>
    GetMetricsSnapshot (test_service h pem in_memory_repository (mock_client h now)) g =
      Inr \<lparr> snapTotalRequests = 1, snapAcceptedRequests = 1, snapRejectedRequests = 0, snapAverageProcessingMs = ms, snapRepositorySize = 1 \<rparr>"
  using assms(2) unfolding Ingest_two_phase [OF MakeValidPacket_ok [OF assms(1)]]
  by (auto simp: test_run_simps mock_client_def mock_SubmitHash_def)

lemma TestRejectsHashMismatch:
  assumes "sha256_sized h" and "Sha256Hex h ''tampered'' \<noteq> Sha256Hex h (canonical (MakeValidPacket h))"
    and "Ingest (test_service h pem in_memory_repository (mock_client h now)) ms
      ((MakeValidPacket h)\<lparr> hashHex := Sha256Hex h ''tampered'' \<rparr>) (new_gateway mem_empty mock_counter) = (Inr result, g)"
  shows "\<not> accepted result \<and> message result = ''hash mismatch with payload'' \<and> mem_Size (repositoryState g) = 0 \<and>
    totalRequests g = 1 \<and> acceptedRequests g = 0 \<and> rejectedRequests g = 1"
proof -
  have "canonical ((MakeValidPacket h)\<lparr> hashHex := x \<rparr>) = canonical (MakeValidPacket h)" for x
    by (simp add: canonical_def)
  then show ?thesis
    using assms(3) IsHex64_Sha256Hex [OF assms(1)] assms(2)
    by (auto simp: Ingest_def MakeValidPacket_simps(1-4) finish_simps test_service_def new_gateway_def mem_Size_def mem_empty_def Let_def)
qed

lemma TestRejectsInvalidSignature:
  assumes "sha256_sized h"
    and "Ingest (test_service h pem in_memory_repository (mock_client h now)) ms
      ((MakeValidPacket h)\<lparr> signature := signature (MakeValidPacket h) @ ''00'' \<rparr>) (new_gateway mem_empty mock_counter) = (Inr result, g)"
  shows "\<not> accepted result \<and> message result = ''signature verification failed'' \<and> mem_Size (repositoryState g) = 0"
proof -
  let ?p = "(MakeValidPacket h)\<lparr> signature := signature (MakeValidPacket h) @ ''00'' \<rparr>"
  have hash: "hashHex ?p = Sha256Hex h (canonical ?p)" by (simp add: canonical_def MakeValidPacket_simps(5) [unfolded canonical_def])
  have "IsHex64 (hashHex ?p)" unfolding hash by (rule IsHex64_Sha256Hex [OF assms(1)])
  moreover have "\<not> Verify (PlainVerify :: unit verify_build) (BuildPublicKeys pem) ?p"
    by (simp add: Verify_iff BuildPublicKeys_def MakeValidPacket_simps(4,6))
  ultimately have "Ingest (test_service h pem in_memory_repository (mock_client h now)) ms ?p g0 =
      finishWith ms False ''signature verification failed'' default_ingest_result g0" for g0
    using hash by (simp add: Ingest_def Let_def test_service_def MakeValidPacket_simps(1-3))
  with assms(2) show ?thesis by (auto simp: finish_simps new_gateway_def mem_Size_def mem_empty_def)
qed

lemma TestRollsBackStorageOnBlockchainFailure:
  assumes "sha256_sized h"
    and "Ingest (test_service h pem in_memory_repository ThrowingBlockchainClient) ms (MakeValidPacket h)
      (new_gateway mem_empty ()) = (Inr result, g)"
  shows "\<not> accepted result \<and> message result = ''blockchain submit failed: simulated blockchain outage'' \<and> mem_Size (repositoryState g) = 0"
  using assms(2) unfolding Ingest_two_phase [OF MakeValidPacket_ok [OF assms(1)]]
  by (auto simp: test_run_simps ThrowingBlockchainClient_def)

lemma TestRollbackOnAttachReceiptFailure:
  assumes "sha256_sized h"
    and "Ingest (test_service h pem (AttachReceiptFailingRepository False) (mock_client h now)) ms (MakeValidPacket h)
      (new_gateway \<lparr> hasRecord = False, deleteCalled = False \<rparr> mock_counter) = (Inr result, g)"
  shows "\<not> accepted result \<and> message result = ''receipt persistence failed after blockchain submit'' \<and>
    Size (AttachReceiptFailingRepository False) (repositoryState g) = Inr 0 \<and> deleteCalled (repositoryState g)"
  using assms(2) unfolding Ingest_two_phase [OF MakeValidPacket_ok [OF assms(1)]]
  by (auto simp: test_run_simps AttachReceiptFailingRepository_def
      mock_client_def mock_SubmitHash_def)

lemma TestRollbackFailureDoesNotMaskBlockchainError:
  assumes "sha256_sized h"
    and "Ingest (test_service h pem (AttachReceiptFailingRepository True) ThrowingBlockchainClient) ms (MakeValidPacket h)
      (new_gateway \<lparr> hasRecord = False, deleteCalled = False \<rparr> ()) = (Inr result, g)"
  shows "\<not> accepted result \<and> deleteCalled (repositoryState g) \<and> message result =
    ''blockchain submit failed: simulated blockchain outage; rollback delete failed: simulated delete failure''"
  using assms(2) unfolding Ingest_two_phase [OF MakeValidPacket_ok [OF assms(1)]]
  by (auto simp: test_run_simps AttachReceiptFailingRepository_def
      ThrowingBlockchainClient_def)

section \<open>\<^verbatim>\<open>test_json_parser.cpp\<close>\<close>

definition test_hash :: string where "test_hash = replicate 64 (CHR ''a'')"
definition test_signature :: string where "test_signature = replicate 32 (CHR ''b'')"

lemma TestParsesValidPayload:
  "ParseTelemetryPacketJson
     (''{'' @ ''\"deviceId\":\"stm32-node-1\",'' @ ''\"timestamp\":1700001000,'' @
      ''\"telemetry\":{\"temperature\":24.5,\"humidity\":62.3},'' @ ''\"hash\":\"'' @ test_hash @ ''\",'' @
      ''\"signature\":\"'' @ test_signature @ ''\",'' @ ''\"pubKeyId\":\"pubkey-1\",'' @ ''\"transport\":\"wifi\",'' @
      ''\"batchCode\":\"BATCH-2026-0001\"'' @ ''}'') =
   \<lparr> ok = True,
     parsedPacket = \<lparr> deviceId = ''stm32-node-1'', timestamp = 1700001000,
       telemetryJson = ''{\"temperature\":24.5,\"humidity\":62.3}'', hashHex = test_hash, signature = test_signature,
       pubKeyId = ''pubkey-1'', transport = ''wifi'', batchCode = ''BATCH-2026-0001'' \<rparr>, parseError = [] \<rparr>"
proof -
  let ?j = "''{\"temperature\":24.5,\"humidity\":62.3}''"
  have "clean_object ?j" by code_simp
  moreover have "no_quote test_hash" "no_quote test_signature" by code_simp+
  ultimately have "ParseTelemetryPacketJson (request_json ''stm32-node-1'' 1700001000 ?j test_hash test_signature
      (Some ''pubkey-1'') (Some ''wifi'') (Some ''BATCH-2026-0001'')) =
    \<lparr> ok = True, parsedPacket = \<lparr> deviceId = ''stm32-node-1'', timestamp = 1700001000, telemetryJson = ?j,
        hashHex = test_hash, signature = test_signature, pubKeyId = ''pubkey-1'', transport = ''wifi'',
        batchCode = ''BATCH-2026-0001'' \<rparr>, parseError = [] \<rparr>"
    by (subst parse_request) (simp_all add: quote_free_opt_def value_or_def)
  moreover have "u64_to_string 1700001000 = ''1700001000''" by code_simp
  ultimately show ?thesis by (simp add: request_json_def string_field_def raw_field_def optional_field_def quoted_def)
qed

lemma TestRejectsMissingTelemetry:
  defines "parsed \<equiv> ParseTelemetryPacketJson
     (''{'' @ ''\"deviceId\":\"stm32-node-1\",'' @ ''\"timestamp\":1700001000,'' @ ''\"hash\":\"'' @ test_hash @ ''\",'' @
      ''\"signature\":\"'' @ test_signature @ ''\"'' @ ''}'')"
  shows "\<not> ok parsed \<and> parseError parsed = ''missing telemetry object''"
  unfolding parsed_def by code_simp

section \<open>\<^verbatim>\<open>test_sqlite_repository.cpp\<close>, over the reference engine\<close>

definition BuildPacket :: telemetry_packet where
  "BuildPacket = \<lparr> deviceId = ''stm32-node-sqlite'', timestamp = 1700002000, telemetryJson = ''{\"temperature\":23.1}'',
     hashHex = test_hash, signature = test_signature, pubKeyId = ''pubkey-1'', transport = ''wifi'', batchCode = ''BATCH-SQLITE-01'' \<rparr>"

definition test_receipt :: blockchain_receipt where
  "test_receipt = \<lparr> txHash = ''0xtesttxhash'', blockHeight = 12345, submittedAtIso8601 = ''2026-02-23T00:00:00Z'' \<rparr>"

lemma TestSqliteRepositoryRoundTrip:
  assumes "open_repository ref_engine path = Inr db0" and "sq_Save ref_engine BuildPacket db0 = (Inr i, db1)"
    and "sq_AttachReceipt ref_engine i test_receipt db1 = (attached, db2)"
    and "sq_Delete ref_engine i db2 = (deleted, db3)"
  defines "r \<equiv> \<lparr> recordId = i, packet = BuildPacket, receipt = Some test_receipt \<rparr>"
  shows "i = 1 \<and> sq_Size ref_engine db1 = Inr 1 \<and> attached = Inr True
    \<and> sq_LatestByDevice ref_engine (deviceId BuildPacket) db2 = Inr (Some r)
    \<and> sq_FindByTransaction ref_engine (txHash test_receipt) db2 = Inr (Some r)
    \<and> sq_FindByBatch ref_engine (batchCode BuildPacket) db2 = Inr [r]
    \<and> deleted = Inr True \<and> sq_Size ref_engine db3 = Inr 0 \<and> fst (sq_Delete ref_engine i db3) = Inr False"
proof -
  have db0: "db0 = \<lparr> refRows = [], refSequence = 0, refChanges = 0, refFailing = False \<rparr>"
    using assms(1) by (simp add: open_repository_def EnsureSchema_def ExecOrThrow_def engine_simps)
  have max: "max_rowid \<noteq> 0" by (simp add: max_rowid_def)
  have c: "c_str (deviceId BuildPacket) = deviceId BuildPacket" "c_str (telemetryJson BuildPacket) = telemetryJson BuildPacket"
    "c_str (hashHex BuildPacket) = hashHex BuildPacket" "c_str (signature BuildPacket) = signature BuildPacket"
    "c_str (pubKeyId BuildPacket) = pubKeyId BuildPacket" "c_str (transport BuildPacket) = transport BuildPacket"
    "c_str (batchCode BuildPacket) = batchCode BuildPacket" "batchCode BuildPacket \<noteq> []"
    "c_str (txHash test_receipt) = txHash test_receipt" "c_str (submittedAtIso8601 test_receipt) = submittedAtIso8601 test_receipt"
    by code_simp+
  note run = engine_simps sq_Save_def sq_AttachReceipt_def sq_Delete_def sq_Size_def sq_LatestByDevice_def sq_FindByTransaction_def
    sq_FindByBatch_def first_row_def in_order_def c
  have save: "i = 1" "sq_Size ref_engine db1 = Inr 1" and db1: "\<exists>row. refRows db1 = [row] \<and> rowId row = 1 \<and> colDevice row = deviceId BuildPacket
      \<and> colBatch row = Some (batchCode BuildPacket) \<and> RowToRecord row = new_record 1 BuildPacket" "\<not> refFailing db1"
    using assms(2) max by (auto simp: db0 run new_record_def RowToRecord_eq value_or_def)
  then obtain row where row: "refRows db1 = [row]" "rowId row = 1" "colDevice row = deviceId BuildPacket"
      "colBatch row = Some (batchCode BuildPacket)" "RowToRecord row = new_record 1 BuildPacket" by blast
  have updated: "RowToRecord (row\<lparr>colTx := Some (txHash test_receipt), colHeight := Some (blockHeight test_receipt),
      colSubmitted := Some (submittedAtIso8601 test_receipt)\<rparr>) = (RowToRecord row)\<lparr>receipt := Some test_receipt\<rparr>"
    by (simp add: RowToRecord_eq value_or_def)
  have attach: "attached = Inr True" and db2: "\<exists>row'. refRows db2 = [row'] \<and> rowId row' = 1 \<and> colDevice row' = deviceId BuildPacket
      \<and> colBatch row' = Some (batchCode BuildPacket) \<and> colTx row' = Some (txHash test_receipt) \<and> RowToRecord row' = r" "\<not> refFailing db2"
    using assms(3) row(1-4) db1(2) by (auto simp: save(1) run r_def updated row(5) new_record_def)
  then obtain row' where row': "refRows db2 = [row']" "rowId row' = 1" "colDevice row' = deviceId BuildPacket"
      "colBatch row' = Some (batchCode BuildPacket)" "colTx row' = Some (txHash test_receipt)" "RowToRecord row' = r" by blast
  have "sq_LatestByDevice ref_engine (deviceId BuildPacket) db2 = Inr (Some r)"
    "sq_FindByTransaction ref_engine (txHash test_receipt) db2 = Inr (Some r)"
    "sq_FindByBatch ref_engine (batchCode BuildPacket) db2 = Inr [r]"
    using row' db2(2) by (simp_all add: run)
  moreover have "deleted = Inr True" "sq_Size ref_engine db3 = Inr 0" "fst (sq_Delete ref_engine i db3) = Inr False"
    using assms(4) row' db2(2) by (auto simp: save(1) run)
  ultimately show ?thesis using save attach by blast
qed

end
