(* ===== verification/Spec2Isabelle.thy ===== *)
theory Spec2Isabelle
  imports Program_Answers Http_Exchange Gateway_Equivalence Server_Signals Test_Programs
begin

text \<open>
  A model of the gateway of \<^verbatim>\<open>src/backend-cpp\<close> and its correctness. The gateway takes telemetry
  packets over HTTP, checks their hash and their signature, stores them, submits the hash to a
  chain, attaches the chain's receipt to the stored record, tells WebSocket subscribers, and answers
  queries for devices, batches and transactions. A packet that the chain or the store refuses must
  leave nothing behind.

  \<^bold>\<open>How the parts fit.\<close> \<^verbatim>\<open>main.cpp\<close> reads the environment, opens the SQLite repository, loads
  the public keys, chooses the mock or the Ethereum chain client, and starts the HTTP server on one
  ingest service. The server runs one handler at a time: it reads a request, parses it, and either
  upgrades to a WebSocket, or answers from the repository, or has the packet parsed from the body
  and ingested. The service calls the verifier, the repository and the chain client through
  interfaces; \<^verbatim>\<open>Stop\<close>, called by the signal handler, ends the accept loop.

  \<^bold>\<open>The theories,\<close> each for one part of the sources, in the order of their imports:
  \<^item> \<open>Prelude\<close>: machine integers, exceptions as values of \<open>exn\<close>, the operations of
    \<^verbatim>\<open>std::string\<close> that the sources use (\<open>str_find\<close>, \<open>str_rfind\<close>, \<open>substr\<close>, \<open>stoull\<close>, \<open>c_str\<close>),
    decimal numbers and their inverses.
  \<^item> \<open>Cpp_Regex\<close>: the patterns of \<^verbatim>\<open>std::regex\<close> that occur, as lists of atoms with a
    backtracking matcher \<open>match_here\<close> and the leftmost search \<open>regex_search\<close>.
  \<^item> \<open>Domain\<close>: \<^verbatim>\<open>include/domain\<close>, the structs as records with their default values.
  \<^item> \<open>Json_Parser\<close>: \<^verbatim>\<open>transport/json_parser.cpp\<close>.
  \<^item> \<open>Hash_Utils\<close>: \<^verbatim>\<open>utils/hash_utils.cpp\<close>, with and without OpenSSL.
  \<^item> \<open>Signature_Verifier\<close>: \<^verbatim>\<open>security/basic_signature_verifier.cpp\<close>, with and without OpenSSL.
  \<^item> \<open>Repository\<close>: \<^verbatim>\<open>storage/telemetry_repository.h\<close> as a record of functions, and its contract,
    the locale \<open>telemetry_store\<close>, against an abstract list of records.
  \<^item> \<open>In_Memory_Repository\<close>: \<^verbatim>\<open>storage/in_memory_telemetry_repository.cpp\<close>, a vector with
    indexes by id, device, batch and transaction; an interpretation of \<open>telemetry_store\<close>.
  \<^item> \<open>Blockchain_Client\<close>, \<open>Ethereum_Client\<close>: \<^verbatim>\<open>blockchain/\<close>, the interface with its contract, the
    locale \<open>receipt_source\<close>, the mock client and the JSON-RPC client with its url parser, its HTTP
    exchange and its polling loop.
  \<^item> \<open>Ingest_Service\<close>: \<^verbatim>\<open>ingest/ingest_service.cpp\<close>: checks, two-phase write with rollback, metrics.
  \<^item> \<open>Http_Text\<close>, \<open>Http_Message\<close>, \<open>WebSocket_Codec\<close>, \<open>Http_Server\<close>: \<^verbatim>\<open>api/http_server.cpp\<close>: the text
    of messages; reading, parsing and writing them; SHA-1, Base64 and frames; sending, broadcasting,
    the routes, the handshake, one client, and the accept loop with \<^verbatim>\<open>Stop\<close>.
  \<^item> \<open>Server_Routes\<close>, \<open>Server_Loop\<close>: the properties of the server, of one request and of its life.
  \<^item> \<open>Http_Exchange\<close>: the HTTP client of the chain part against the HTTP server.
  \<^item> \<open>Sqlite_Repository\<close>: \<^verbatim>\<open>storage/sqlite_telemetry_repository.cpp\<close> over an engine that is a
    parameter. A statement is its text with the values bound to its parameters, a row the values of
    its columns in the order the text lists them; the locale \<open>sqlite_engine\<close> holds the documented
    meaning of the statements, and a reference engine interprets it.
  \<^item> \<open>Sqlite_Gateway\<close>: the ingest service over that repository.
  \<^item> \<open>Gateway_Equivalence\<close>: the gateway over SQLite against the gateway over the in-memory
    repository, for engines that do not fail (the locale \<open>healthy_engine\<close>).
  \<^item> \<open>Main_Program\<close>: \<^verbatim>\<open>main.cpp\<close>: configuration, composition, the ways the process ends.
  \<^item> \<open>Server_Signals\<close>: a signal during a broadcast, and between the calls of \<^verbatim>\<open>Start\<close>.
  \<^item> \<open>Program_Answers\<close>: what the composed program answers after it has accepted a packet.
  \<^item> \<open>Test_Programs\<close>: the assertions of \<^verbatim>\<open>tests/\<close> as lemmas about the model.

  \<^bold>\<open>State and operations.\<close> Each class with state is a record (\<open>in_memory\<close>, \<open>gateway\<close>, \<open>http_server\<close>),
  each method a function on it that returns the new state; a method that can throw returns
  \<open>exn + 'a\<close>. A gateway pairs the state of the repository and of the chain client with the counters
  of the service. The server adds the listening descriptor, the subscribers of the two channels and
  \<open>os_state\<close>, which records the open descriptors, what was sent on each, and any close of a descriptor
  that was not open. \<open>server_step\<close> is the accept loop: a failed accept, a client served and closed,
  kept or left by an exception, the return, and \<^verbatim>\<open>Stop\<close> from the signal handler, in
  \<^verbatim>\<open>accept\<close>, after the return, while a request is read, or during a broadcast, whose mutex it then
  waits for. \<open>reachable\<close> closes it from the start, between whose calls a signal can come as well,
  and \<open>program_end\<close> says how the process can end.

  \<^bold>\<open>What the groups of lemmas show.\<close>
  \<^item> Storage: both repositories implement the list of records; ids are distinct; the indexes and the
    SQL queries answer from that list; and while the engine does not fail, the gateway gives the same
    results over either.
  \<^item> Ingest: an accepted packet had the right hash and a verified signature, and its record is added
    with its receipt; a rejected one leaves nothing, or is reported as an orphan; the
    in-memory ledger holds exactly the accepted packets, and the table of the program only grows, by
    checked packets, over all its reachable states.
  \<^item> Server: no descriptor is lost or closed twice; after \<^verbatim>\<open>Stop\<close> the loop can only
    return; a broadcast gives each subscriber one readable frame or drops it; what was accepted is
    what the query routes answer.
  \<^item> Texts: parsers invert writers (packets, escapes, hex, Base64, frames, requests and responses
    between the two HTTP halves), regular expressions equal scans, the read of a request does
    not depend on its segments, and two packets with the same hash input have the same content.
  \<^item> Chain: a submission ends, and a receipt comes from the node's replies, or from a timeout.

  \<^bold>\<open>Bounds and fuel.\<close> No definition has fuel. The polling loop of the Ethereum client may not end and is
  a \<open>partial_function (option)\<close>; it is proved to end when each round takes at least the interval.
  The loops over \<^verbatim>\<open>recv\<close> and \<^verbatim>\<open>send\<close> run over the finite list of the answers that the kernel
  gives in one handler, whose end stands for a closed connection; the statements hold for all such
  lists. Integers keep their widths (\<open>u64\<close>, \<open>u32\<close>); the capacity hypotheses (\<open>mem_room\<close>, fewer than
  \<open>2 ^ 64\<close> calls, fewer than \<open>2 ^ 63\<close> rows of SQLite) say that the counter of the records has not wrapped.

  \<^bold>\<open>Not modelled,\<close> and why:
  \<^item> OpenSSL, \<^verbatim>\<open>std::hash\<close>, SQLite, the socket calls, the clocks and the file system are not
    in the sources: they are parameters, with documented behaviour as hypotheses where
    a statement needs it.
  \<^item> A signal that interrupts the signal handler, or the single statement that adds a subscriber under
    the mutex. Elsewhere in a handler a signal has the effect it has after the reading of the
    request or after the handler. The server has one thread, so each locked method is one step.
  \<^item> A peer that sends forever, and the recursion depth of \<^verbatim>\<open>std::regex\<close>.
  \<^item> Allocation failures, and the destructors, which run when the process ends.
  \<^item> The effect of creating the directory of the database, whose errors the sources ignore: the
    directory asked for is an argument of opening the file.
\<close>

end
